theory Spec2Isabelle
  imports Main "HOL-Library.Word" "HOL-Library.AList"
begin

section \<open>Strings of the Go standard library\<close>

text \<open>
  A Go string is a sequence of bytes; \<open>string\<close> (a list of 8-bit characters) is the same
  data. The case mappings and the white space test cover the ASCII range: a byte outside
  it is left as it is, where Go would map the letters of other scripts too.
\<close>

definition is_lower :: "char \<Rightarrow> bool" where
  "is_lower c = (97 \<le> (of_char c :: nat) \<and> (of_char c :: nat) \<le> 122)"

definition is_upper :: "char \<Rightarrow> bool" where
  "is_upper c = (65 \<le> (of_char c :: nat) \<and> (of_char c :: nat) \<le> 90)"

definition to_upper :: "char \<Rightarrow> char" where
  "to_upper c =
     (if is_lower c
      then Char (digit0 c) (digit1 c) (digit2 c) (digit3 c) (digit4 c) False (digit6 c) (digit7 c)
      else c)"

definition to_lower :: "char \<Rightarrow> char" where
  "to_lower c =
     (if is_upper c
      then Char (digit0 c) (digit1 c) (digit2 c) (digit3 c) (digit4 c) True (digit6 c) (digit7 c)
      else c)"

definition strings_ToUpper :: "string \<Rightarrow> string" where
  "strings_ToUpper s = map to_upper s"

definition strings_ToLower :: "string \<Rightarrow> string" where
  "strings_ToLower s = map to_lower s"

definition is_space :: "char \<Rightarrow> bool" where
  "is_space c = ((9 \<le> (of_char c :: nat) \<and> (of_char c :: nat) \<le> 13) \<or> (of_char c :: nat) = 32)"

definition strings_TrimSpace :: "string \<Rightarrow> string" where
  "strings_TrimSpace s = rev (dropWhile is_space (rev (dropWhile is_space s)))"

text \<open>\<open>strings.Split(s, sep)\<close> for a separator of one or more bytes: the pieces between
  the occurrences of \<open>sep\<close>, found left to right; \<open>acc\<close> is the piece being read.\<close>

fun split_from :: "char \<Rightarrow> string \<Rightarrow> string \<Rightarrow> string \<Rightarrow> string list" where
  "split_from c cs acc [] = [acc]"
| "split_from c cs acc (x # xs) =
     (if x = c \<and> take (length cs) xs = cs
      then acc # split_from c cs [] (drop (length cs) xs)
      else split_from c cs (acc @ [x]) xs)"

definition strings_Split :: "string \<Rightarrow> string \<Rightarrow> string list" where
  "strings_Split s sep =
     (case sep of
        [] \<Rightarrow> map (\<lambda>c. [c]) s
      | c # cs \<Rightarrow> split_from c cs [] s)"

text \<open>\<open>strings.SplitN(s, "=", 2)\<close>: one piece when \<open>s\<close> has no \<open>=\<close>, otherwise the text
  before the first \<open>=\<close> and the text after it.\<close>

definition strings_SplitN2 :: "string \<Rightarrow> char \<Rightarrow> string list" where
  "strings_SplitN2 s c =
     (if c \<in> set s
      then [takeWhile (\<lambda>x. x \<noteq> c) s, tl (dropWhile (\<lambda>x. x \<noteq> c) s)]
      else [s])"

fun strings_Join :: "string list \<Rightarrow> string \<Rightarrow> string" where
  "strings_Join [] sep = []"
| "strings_Join [x] sep = x"
| "strings_Join (x # y # ys) sep = x @ sep @ strings_Join (y # ys) sep"

text \<open>\<open>len([]rune(f))\<close> on valid UTF-8: the bytes that do not continue a sequence
  (a continuation byte is \<open>10xxxxxx\<close>).\<close>

definition rune_count :: "string \<Rightarrow> nat" where
  "rune_count s = length (filter (\<lambda>c. \<not> (digit7 c \<and> \<not> digit6 c)) s)"


section \<open>Errors and panics\<close>

text \<open>The package's error values, the two errors of \<open>strconv\<close>, and any other error a
  library hands back (named by its text).\<close>

datatype goerror =
    ErrMalformedFlagConfig
  | ErrFileTypeNotSupported
  | ErrPointerExpected
  | ErrNoFileFound
  | ErrUnsupportedType
  | ErrCantSet
  | ErrSyntax
  | ErrRange
  | ErrLibrary string

text \<open>What a call does: it returns a value, returns an error, or panics with a message.\<close>

datatype 'a outcome = Ok 'a | Err goerror | Panic string


section \<open>Annotations\<close>

record flag =
  DefaultName :: string
  ShortName :: string

record parameterConfig =
  DefaultFileField :: string
  DefaultEnvName :: string
  Flag :: flag

definition empty_flag :: flag where
  "empty_flag = \<lparr>DefaultName = [], ShortName = []\<rparr>"

definition empty_parameterConfig :: parameterConfig where
  "empty_parameterConfig = \<lparr>DefaultFileField = [], DefaultEnvName = [], Flag = empty_flag\<rparr>"

fun readFlagConfig_loop :: "string list \<Rightarrow> flag \<Rightarrow> flag outcome" where
  "readFlagConfig_loop [] flagConf = Ok flagConf"
| "readFlagConfig_loop (f # fs) flagConf =
     (if rune_count f = 1
      then (if ShortName flagConf \<noteq> [] then Err ErrMalformedFlagConfig
            else readFlagConfig_loop fs (flagConf\<lparr>ShortName := f\<rparr>))
      else (if DefaultName flagConf \<noteq> [] then Err ErrMalformedFlagConfig
            else readFlagConfig_loop fs (flagConf\<lparr>DefaultName := f\<rparr>)))"

definition readFlagConfig :: "string \<Rightarrow> flag outcome" where
  "readFlagConfig flagStr =
     (let flags = strings_Split flagStr '' '' in
      if length flags > 2 then Err ErrMalformedFlagConfig
      else readFlagConfig_loop flags empty_flag)"

definition tag_format_message :: string where
  "tag_format_message = ''config struct tag needs to have the format: config:\"file=val,env=val,flag=l long\"''"

definition tag_keys_message :: string where
  "tag_keys_message = ''only env, file, and flag are allowed as config tag keys''"

fun readParameterConfig_loop :: "string list \<Rightarrow> parameterConfig \<Rightarrow> parameterConfig outcome" where
  "readParameterConfig_loop [] fieldConfig = Ok fieldConfig"
| "readParameterConfig_loop (paramStr # rest) fieldConfig =
     (case strings_SplitN2 paramStr (CHR ''='') of
        [key, val] \<Rightarrow>
          if key = [] \<or> val = [] then Panic tag_format_message
          else if key = ''env'' then readParameterConfig_loop rest (fieldConfig\<lparr>DefaultEnvName := val\<rparr>)
          else if key = ''file'' then readParameterConfig_loop rest (fieldConfig\<lparr>DefaultFileField := val\<rparr>)
          else if key = ''flag'' then
            (case readFlagConfig val of
               Ok flagConf \<Rightarrow> readParameterConfig_loop rest (fieldConfig\<lparr>Flag := flagConf\<rparr>)
             | Err e \<Rightarrow> Err e
             | Panic m \<Rightarrow> Panic m)
          else Panic tag_keys_message
      | _ \<Rightarrow> Panic ''invalid config struct tag format'')"

definition readParameterConfig :: "string \<Rightarrow> parameterConfig outcome" where
  "readParameterConfig configStr =
     (if configStr = [] then Ok empty_parameterConfig
      else readParameterConfig_loop (strings_Split configStr '','') empty_parameterConfig)"

section \<open>Settings values\<close>

text \<open>
  The settings object is a tree: a struct holds its fields by value, each with its name,
  its annotation (the value of the \<open>config\<close> struct tag) and its value. A value carries
  its static type: the constructor, the integer kind, the name of a library type. The
  types parsed by a library (floating point, complex, duration, a type with
  \<open>UnmarshalText\<close>) and the types the coercion does not know are not of kind struct and
  hold an opaque text, empty for the type's zero value.
  \<^item> A \<open>time.Time\<close> is a struct of the standard library and is held as the fields that
    reflection finds in it: \<open>wall\<close>, \<open>ext\<close> and \<open>loc\<close>, none of them exported.
  \<^item> A pointer field that is nil is \<open>VNil\<close>, with the name of the type it points to. A pointer
    field that is not nil is held as its pointee, which is what \<open>reflect.Indirect\<close> makes
    of it; two fields never share a pointee, and the pointee stays with its field.
  \<^item> No field has an interface type.
\<close>

datatype intkind = KInt | KInt8 | KInt16 | KInt32 | KInt64

datatype uintkind = KUint | KUint8 | KUint16 | KUint32 | KUint64

datatype extkind =
    KFloat32 | KFloat64 | KComplex64 | KComplex128
  | KDuration
  | KTextUnmarshaler string
  | KOther string

datatype val =
    VInt intkind int
  | VUint uintkind nat
  | VBool bool
  | VString string
  | VStrings "string list option"
  | VStringMap "(string \<times> string) list option"
  | VExt extkind string
  | VNil string
  | VTime "sfield list"
  | VStruct "sfield list"
and sfield = SField (fname: string) (ftag: string) (fval: val)

text \<open>The zero \<open>time.Time\<close>: no wall clock reading, no monotonic reading, no location.\<close>

definition zero_time :: "sfield list" where
  "zero_time =
     [SField ''wall'' [] (VUint KUint64 0), SField ''ext'' [] (VInt KInt64 0),
      SField ''loc'' [] (VNil ''time.Location'')]"

text \<open>\<open>reflect.Zero\<close>: the zero value of the type of a value.\<close>

primrec zero_of :: "val \<Rightarrow> val" and zero_of_field :: "sfield \<Rightarrow> sfield" where
  "zero_of (VInt k n) = VInt k 0"
| "zero_of (VUint k n) = VUint k 0"
| "zero_of (VBool b) = VBool False"
| "zero_of (VString s) = VString []"
| "zero_of (VStrings xs) = VStrings None"
| "zero_of (VStringMap m) = VStringMap None"
| "zero_of (VExt k t) = VExt k []"
| "zero_of (VNil ty) = VNil ty"
| "zero_of (VTime fs) = VTime zero_time"
| "zero_of (VStruct fs) = VStruct (map zero_of_field fs)"
| "zero_of_field (SField n t v) = SField n t (zero_of v)"

text \<open>What a file decoder produces: a text, another scalar (a number, a boolean, null,
  kept as its text), a sequence, or a mapping with its keys in the order of the file.\<close>

datatype fval =
    FString string
  | FScalar string
  | FList "fval list"
  | FMap "(string \<times> fval) list"

text \<open>
  The libraries the package calls, as functions of what they are given; \<open>None\<close> is the
  library's error.
  \<^item> The parsers of \<open>strconv\<close>, \<open>time.ParseDuration\<close> and the \<open>UnmarshalText\<close> of a type
    (named by the type) build the opaque text of the value from the source text;
    \<open>time.Parse\<close> builds the fields of the \<open>time.Time\<close>.
  \<^item> \<open>mapstructure_Decode\<close> decodes a file value into a copy of the zero value of the
    target's type.
  \<^item> \<open>yaml_Unmarshal\<close> and \<open>json_Unmarshal\<close> decode the bytes of a file into a mapping.
  \<^item> \<open>pflag_Parse\<close> stands for a \<open>pflag.FlagSet\<close> with \<open>ContinueOnError\<close> and
    \<open>UnknownFlags\<close> whitelisted: given the string flags registered, in order, each with its
    name and its shorthand, and the argument list, it answers for every flag name the
    value of the flag and whether it is \<open>Changed\<close>, or the error of \<open>Parse\<close>, or the panic
    of a registration.
\<close>

record extlib =
  strconv_ParseFloat :: "string \<Rightarrow> string option"
  strconv_ParseComplex :: "string \<Rightarrow> string option"
  time_ParseDuration :: "string \<Rightarrow> string option"
  time_Parse_RFC3339 :: "string \<Rightarrow> sfield list option"
  UnmarshalText :: "string \<Rightarrow> string \<Rightarrow> string option"
  mapstructure_Decode :: "fval \<Rightarrow> val \<Rightarrow> val option"
  yaml_Unmarshal :: "string \<Rightarrow> (string \<times> fval) list option"
  json_Unmarshal :: "string \<Rightarrow> (string \<times> fval) list option"
  pflag_Parse :: "(string \<times> string) list \<Rightarrow> string list \<Rightarrow> (string \<Rightarrow> string \<times> bool) outcome"


section \<open>The Value Coercer\<close>

definition is_digit :: "char \<Rightarrow> bool" where
  "is_digit c = (48 \<le> (of_char c :: nat) \<and> (of_char c :: nat) \<le> 57)"

text \<open>\<open>strconv.ParseUint(s, 10, bitSize)\<close> reads the digits left to right and stops at the
  first byte that is no digit (a syntax error) or at the first digit that takes the number
  past the largest value of \<open>bitSize\<close> bits (a range error). A \<open>bitSize\<close> of 0 is the size
  of \<open>int\<close>, 64 bits here.\<close>

definition bits_of :: "nat \<Rightarrow> nat" where
  "bits_of bitSize = (if bitSize = 0 then 64 else bitSize)"

fun ParseUint_loop :: "string \<Rightarrow> nat \<Rightarrow> nat \<Rightarrow> goerror + nat" where
  "ParseUint_loop [] bits n = Inr n"
| "ParseUint_loop (c # cs) bits n =
     (if \<not> is_digit c then Inl ErrSyntax
      else if n * 10 + ((of_char c :: nat) - 48) \<ge> 2 ^ bits then Inl ErrRange
      else ParseUint_loop cs bits (n * 10 + ((of_char c :: nat) - 48)))"

definition strconv_ParseUint :: "string \<Rightarrow> nat \<Rightarrow> goerror + nat" where
  "strconv_ParseUint s bitSize =
     (if s = [] then Inl ErrSyntax else ParseUint_loop s (bits_of bitSize) 0)"

definition strconv_ParseInt :: "string \<Rightarrow> nat \<Rightarrow> goerror + int" where
  "strconv_ParseInt s bitSize =
     (case s of
        [] \<Rightarrow> Inl ErrSyntax
      | c # cs \<Rightarrow>
          (let neg = (c = CHR ''-'');
               body = (if c = CHR ''+'' \<or> c = CHR ''-'' then cs else s);
               cutoff = (2::nat) ^ (bits_of bitSize - 1)
           in case strconv_ParseUint body bitSize of
                Inl ErrRange \<Rightarrow> Inl ErrRange
              | Inl e \<Rightarrow> Inl e
              | Inr un \<Rightarrow>
                  if \<not> neg \<and> un \<ge> cutoff then Inl ErrRange
                  else if neg \<and> un > cutoff then Inl ErrRange
                  else Inr (if neg then - int un else int un)))"

text \<open>\<open>reflect.Value.SetInt\<close> and \<open>SetUint\<close> store a 64-bit number through a conversion
  to the kind of the target (\<open>int8(x)\<close>, \<open>uint16(x)\<close>, ...), which keeps the low bits:
  the number modulo \<open>2 ^ w\<close>, read as two's complement for a signed kind.\<close>

fun int_bits :: "intkind \<Rightarrow> nat" where
  "int_bits KInt = 64"
| "int_bits KInt8 = 8"
| "int_bits KInt16 = 16"
| "int_bits KInt32 = 32"
| "int_bits KInt64 = 64"

fun uint_bits :: "uintkind \<Rightarrow> nat" where
  "uint_bits KUint = 64"
| "uint_bits KUint8 = 8"
| "uint_bits KUint16 = 16"
| "uint_bits KUint32 = 32"
| "uint_bits KUint64 = 64"

definition SetInt :: "intkind \<Rightarrow> int \<Rightarrow> int" where
  "SetInt k x = (x + 2 ^ (int_bits k - 1)) mod 2 ^ int_bits k - 2 ^ (int_bits k - 1)"

definition SetUint :: "uintkind \<Rightarrow> nat \<Rightarrow> nat" where
  "SetUint k x = x mod 2 ^ uint_bits k"

definition strconv_ParseBool :: "string \<Rightarrow> goerror + bool" where
  "strconv_ParseBool s =
     (if s \<in> set [''1'', ''t'', ''T'', ''TRUE'', ''true'', ''True''] then Inr True
      else if s \<in> set [''0'', ''f'', ''F'', ''FALSE'', ''false'', ''False''] then Inr False
      else Inl ErrSyntax)"

definition stringSlice_UnmarshalText :: "string \<Rightarrow> string list" where
  "stringSlice_UnmarshalText text = map strings_TrimSpace (strings_Split text '','')"

text \<open>\<open>stringMap.UnmarshalText\<close> writes \<open>m[split[0]] = split[1]\<close> for every element; an
  element without \<open>=\<close> gives a \<open>split\<close> of length one, and indexing it at 1 panics.\<close>

fun stringMap_loop :: "string list \<Rightarrow> (string \<times> string) list \<Rightarrow> (string \<times> string) list outcome" where
  "stringMap_loop [] m = Ok m"
| "stringMap_loop (keyVal # rest) m =
     (case map strings_TrimSpace (strings_SplitN2 keyVal (CHR ''='')) of
        [k, v] \<Rightarrow> stringMap_loop rest (AList.update k v m)
      | _ \<Rightarrow> Panic ''index out of range [1] with length 1'')"

definition stringMap_UnmarshalText :: "(string \<times> string) list \<Rightarrow> string \<Rightarrow> (string \<times> string) list outcome" where
  "stringMap_UnmarshalText m text = stringMap_loop (stringSlice_UnmarshalText text) m"

definition of_library :: "extkind \<Rightarrow> string option \<Rightarrow> val outcome" where
  "of_library k r = (case r of None \<Rightarrow> Err (ErrLibrary ''parse error'') | Some t \<Rightarrow> Ok (VExt k t))"

text \<open>The body of \<open>setFromString\<close>, for a target that can be set and a text that is not
  empty: the type switch. Assigning a string to a target of another type panics in
  \<open>reflect.Value.Set\<close>.\<close>

fun setFromString_switch :: "extlib \<Rightarrow> val \<Rightarrow> string \<Rightarrow> val outcome" where
  "setFromString_switch lib (VInt k old) value =
     (case strconv_ParseInt value 0 of Inl e \<Rightarrow> Err e | Inr intVal \<Rightarrow> Ok (VInt k (SetInt k intVal)))"
| "setFromString_switch lib (VUint k old) value =
     (case strconv_ParseUint value 0 of Inl e \<Rightarrow> Err e | Inr uintVal \<Rightarrow> Ok (VUint k (SetUint k uintVal)))"
| "setFromString_switch lib (VBool old) value =
     (case strconv_ParseBool value of Inl e \<Rightarrow> Err e | Inr b \<Rightarrow> Ok (VBool b))"
| "setFromString_switch lib (VString old) value = Ok (VString value)"
| "setFromString_switch lib (VStrings old) value = Ok (VStrings (Some (stringSlice_UnmarshalText value)))"
| "setFromString_switch lib (VStringMap old) value =
     (case stringMap_UnmarshalText [] value of
        Ok strMap \<Rightarrow> Ok (VStringMap (Some strMap))
      | Err e \<Rightarrow> Err e
      | Panic m \<Rightarrow> Panic m)"
| "setFromString_switch lib (VExt KFloat32 old) value = of_library KFloat32 (strconv_ParseFloat lib value)"
| "setFromString_switch lib (VExt KFloat64 old) value = of_library KFloat64 (strconv_ParseFloat lib value)"
| "setFromString_switch lib (VExt KComplex64 old) value = of_library KComplex64 (strconv_ParseComplex lib value)"
| "setFromString_switch lib (VExt KComplex128 old) value = of_library KComplex128 (strconv_ParseComplex lib value)"
| "setFromString_switch lib (VExt KDuration old) value = of_library KDuration (time_ParseDuration lib value)"
| "setFromString_switch lib (VExt (KTextUnmarshaler ty) old) value =
     of_library (KTextUnmarshaler ty) (UnmarshalText lib ty value)"
| "setFromString_switch lib (VExt (KOther ty) old) value =
     Panic ''reflect.Set: value of type string is not assignable''"
| "setFromString_switch lib (VNil ty) value =
     Panic ''reflect: call of reflect.Value.Interface on zero Value''"
| "setFromString_switch lib (VTime old) value =
     (case time_Parse_RFC3339 lib value of
        None \<Rightarrow> Err (ErrLibrary ''parse error'')
      | Some fs \<Rightarrow> Ok (VTime fs))"
| "setFromString_switch lib (VStruct fs) value =
     Panic ''reflect.Set: value of type string is not assignable''"

text \<open>\<open>setFromString\<close>: \<open>canSet\<close> is \<open>target.CanSet()\<close>, \<open>target\<close> the value the slot holds.
  The result is the error returned (the slot is then unchanged) or the value the slot
  holds afterwards. The deferred \<open>recover\<close> turns every panic into \<open>ErrUnsupportedType\<close>.\<close>

definition setFromString :: "extlib \<Rightarrow> bool \<Rightarrow> val \<Rightarrow> string \<Rightarrow> goerror + val" where
  "setFromString lib canSet target value =
     (if \<not> canSet then Inl ErrCantSet
      else if value = [] then Inr (zero_of target)
      else (case setFromString_switch lib target value of
              Ok v \<Rightarrow> Inr v
            | Err e \<Rightarrow> Inl e
            | Panic m \<Rightarrow> Inl ErrUnsupportedType))"

text \<open>A call of \<open>setFromString\<close> as the reader sees it: what it returns, and the value the
  target holds afterwards.\<close>

definition coerce_into :: "extlib \<Rightarrow> bool \<Rightarrow> val \<Rightarrow> string \<Rightarrow> unit outcome \<times> val" where
  "coerce_into lib canSet target value =
     (case setFromString lib canSet target value of
        Inl e \<Rightarrow> (Err e, target)
      | Inr v \<Rightarrow> (Ok (), v))"


section \<open>Slices of strings\<close>

text \<open>
  A slice is a window on a backing array: the array, a length and a capacity. The heap
  lists the backing arrays, each as long as its capacity. \<open>append\<close> with room left writes
  into the backing array of its argument, which every other slice on that array sees;
  without room it allocates a new array and copies. The new capacity is the one the
  runtime of the \<open>gc\<close> toolchain chooses for slices of strings below 256 elements: 1 for
  an empty slice, otherwise double.
\<close>

record slice =
  arr :: nat
  len :: nat
  cap :: nat

type_synonym heap = "string list list"

definition nil_slice :: slice where
  "nil_slice = \<lparr>arr = 0, len = 0, cap = 0\<rparr>"

definition growslice_cap :: "nat \<Rightarrow> nat" where
  "growslice_cap oldCap = (if oldCap = 0 then 1 else 2 * oldCap)"

definition slice_elems :: "heap \<Rightarrow> slice \<Rightarrow> string list" where
  "slice_elems h s = (if len s = 0 then [] else take (len s) (h ! arr s))"

definition go_append :: "heap \<Rightarrow> slice \<Rightarrow> string \<Rightarrow> slice \<times> heap" where
  "go_append h s x =
     (if len s < cap s
      then (s\<lparr>len := len s + 1\<rparr>, h[arr s := (h ! arr s)[len s := x]])
      else (\<lparr>arr = length h, len = len s + 1, cap = growslice_cap (cap s)\<rparr>,
            h @ [slice_elems h s @ x # replicate (growslice_cap (cap s) - len s - 1) []]))"


section \<open>The Field Catalog\<close>

text \<open>A \<open>reflect.Value\<close> for a field of the settings object: the slot it refers to (the
  indices of the struct fields on the way from the root) and whether it can be set. A
  field reached through an unexported field cannot be set.\<close>

record rvalue =
  slot :: "nat list"
  settable :: bool

record field =
  Base :: slice
  Name :: string
  Value :: rvalue
  Config :: parameterConfig

definition FullName :: "heap \<Rightarrow> field \<Rightarrow> string \<Rightarrow> string \<times> heap" where
  "FullName h f separator =
     (case go_append h (Base f) (Name f) of
        (s, h') \<Rightarrow> (strings_Join (slice_elems h' s) separator, h'))"

definition exported :: "string \<Rightarrow> bool" where
  "exported name = (case name of [] \<Rightarrow> False | c # cs \<Rightarrow> is_upper c)"

text \<open>\<open>Kind() == reflect.Struct\<close>: true of a struct of the settings type and of a
  \<open>time.Time\<close>, which is a struct of the standard library.\<close>

fun Kind_Struct :: "val \<Rightarrow> bool" where
  "Kind_Struct (VStruct fs) = True"
| "Kind_Struct (VTime fs) = True"
| "Kind_Struct v = False"

text \<open>What \<open>reflect.Indirect\<close> makes of a nil pointer is the invalid \<open>Value\<close>.\<close>

fun is_nil :: "val \<Rightarrow> bool" where
  "is_nil (VNil ty) = True"
| "is_nil v = False"

text \<open>\<open>getFieldsConfigsFromValue\<close> and the body of its loop, from field \<open>i\<close> of the struct
  on; \<open>found\<close> is the slice \<open>fields\<close> of the source. \<open>NumField\<close> panics on a value that is
  no struct. The entry of a field holds \<open>reflect.Indirect\<close> of the field: for a nil pointer
  that is the invalid \<open>Value\<close>, which cannot be set and which no slot holds (the entry
  refers to the pointee, one step below the field, and there is none). The catalog goes
  into every field of kind struct, a \<open>time.Time\<close> included.\<close>

function
  getFieldsConfigsFromValue :: "heap \<Rightarrow> val \<Rightarrow> rvalue \<Rightarrow> slice \<Rightarrow> (field list \<times> heap) outcome"
  and getFields_loop ::
    "heap \<Rightarrow> sfield list \<Rightarrow> nat \<Rightarrow> rvalue \<Rightarrow> slice \<Rightarrow> field list \<Rightarrow> (field list \<times> heap) outcome"
where
  "getFieldsConfigsFromValue h v rv base =
     (case v of
        VStruct fs \<Rightarrow> getFields_loop h fs 0 rv base []
      | VTime fs \<Rightarrow> getFields_loop h fs 0 rv base []
      | _ \<Rightarrow> Panic ''reflect: call of reflect.Value.NumField on non-struct Value'')"
| "getFields_loop h [] i rv base found = Ok (found, h)"
| "getFields_loop h (SField name tg v # rest) i rv base found =
     (case readParameterConfig tg of
        Err e \<Rightarrow> Err e
      | Panic m \<Rightarrow> Panic m
      | Ok fieldConfig \<Rightarrow>
          (let fieldValue = \<lparr>slot = (if is_nil v then slot rv @ [i, 0] else slot rv @ [i]),
                              settable = (settable rv \<and> exported name \<and> \<not> is_nil v)\<rparr>;
               found1 = found @ [\<lparr>Base = base, Name = name, Value = fieldValue, Config = fieldConfig\<rparr>]
           in if Kind_Struct v
              then (case go_append h base name of
                      (newBase, h1) \<Rightarrow>
                        (case getFieldsConfigsFromValue h1 v fieldValue newBase of
                           Ok (subFields, h2) \<Rightarrow>
                             getFields_loop h2 rest (i + 1) rv base (found1 @ subFields)
                         | Err e \<Rightarrow> Err e
                         | Panic m \<Rightarrow> Panic m))
              else getFields_loop h rest (i + 1) rv base found1))"
  by pat_completeness auto
termination
  by (relation "measure (\<lambda>x. case x of
        Inl (h, v, rv, base) \<Rightarrow> size v
      | Inr (h, fs, i, rv, base, found) \<Rightarrow> size_list size fs)") auto


section \<open>The settings object as a store\<close>

fun get_at :: "val \<Rightarrow> nat list \<Rightarrow> val option" where
  "get_at v [] = Some v"
| "get_at (VStruct fs) (i # p) = (if i < length fs then get_at (fval (fs ! i)) p else None)"
| "get_at (VTime fs) (i # p) = (if i < length fs then get_at (fval (fs ! i)) p else None)"
| "get_at v (i # p) = None"

fun set_at :: "val \<Rightarrow> nat list \<Rightarrow> val \<Rightarrow> val" where
  "set_at v [] new = new"
| "set_at (VStruct fs) (i # p) new =
     (if i < length fs
      then VStruct (fs[i := SField (fname (fs ! i)) (ftag (fs ! i)) (set_at (fval (fs ! i)) p new)])
      else VStruct fs)"
| "set_at (VTime fs) (i # p) new =
     (if i < length fs
      then VTime (fs[i := SField (fname (fs ! i)) (ftag (fs ! i)) (set_at (fval (fs ! i)) p new)])
      else VTime fs)"
| "set_at v (i # p) new = v"

text \<open>The static type of a value.\<close>

datatype gotype =
    TInt intkind | TUint uintkind | TBool | TString | TStrings | TStringMap | TExt extkind
  | TNil string
  | TTime
  | TStruct "(string \<times> string \<times> gotype) list"

primrec type_of :: "val \<Rightarrow> gotype" and type_of_field :: "sfield \<Rightarrow> string \<times> string \<times> gotype" where
  "type_of (VInt k n) = TInt k"
| "type_of (VUint k n) = TUint k"
| "type_of (VBool b) = TBool"
| "type_of (VString s) = TString"
| "type_of (VStrings xs) = TStrings"
| "type_of (VStringMap m) = TStringMap"
| "type_of (VExt k t) = TExt k"
| "type_of (VNil ty) = TNil ty"
| "type_of (VTime fs) = TTime"
| "type_of (VStruct fs) = TStruct (map type_of_field fs)"
| "type_of_field (SField n t v) = (n, t, type_of v)"

section \<open>The Case-Insensitive Nested Map\<close>

text \<open>
  Modelled from the spec: \<open>ciMap\<close> and its \<open>Get\<close> are defined in a file of the repository
  that is not among the sources. \<open>Get(path)\<close> splits the path on the configured separator
  and descends level by level, matching each segment against the keys of the level
  ignoring case; an unmatched segment is "not found". Where two keys of a level match,
  the first in the order of the file is taken.
\<close>

fun ci_lookup :: "(string \<times> fval) list \<Rightarrow> string \<Rightarrow> fval option" where
  "ci_lookup [] seg = None"
| "ci_lookup ((k, v) # rest) seg =
     (if strings_ToLower k = strings_ToLower seg then Some v else ci_lookup rest seg)"

fun ciMap_descend :: "fval \<Rightarrow> string list \<Rightarrow> fval option" where
  "ciMap_descend v [] = Some v"
| "ciMap_descend (FMap kvs) (seg # segs) =
     (case ci_lookup kvs seg of None \<Rightarrow> None | Some v \<Rightarrow> ciMap_descend v segs)"
| "ciMap_descend v (seg # segs) = None"

definition ciMap_Get :: "string \<Rightarrow> (string \<times> fval) list \<Rightarrow> string \<Rightarrow> fval option" where
  "ciMap_Get separator m fieldName = ciMap_descend (FMap m) (strings_Split fieldName separator)"


section \<open>The Source Readers\<close>

record FilesConfig =
  Locations :: "string list"
  BaseName :: string
  Files_Separator :: string
  Files_Disabled :: bool

record EnvConfig =
  Prefix :: string
  Env_Separator :: string
  Env_Disabled :: bool

record FlagsConfig =
  Flags_Separator :: string
  Flags_Disabled :: bool

record Collector =
  Files :: FilesConfig
  Env :: EnvConfig
  Flags :: FlagsConfig

text \<open>What the process sees: the directories (the names \<open>ioutil.ReadDir\<close> lists, \<open>None\<close>
  when it fails), the files (location and name to bytes, \<open>None\<close> when \<open>ioutil.ReadFile\<close>
  fails), \<open>os.Environ()\<close> and \<open>os.Args[1:]\<close>.\<close>

record os =
  ioutil_ReadDir :: "string \<Rightarrow> string list option"
  ioutil_ReadFile :: "string \<Rightarrow> string \<Rightarrow> string option"
  Environ :: "string list"
  Args :: "string list"

text \<open>A reader works on the backing arrays of the catalog and on the settings object,
  and leaves both as they are when it stops: after an error the object keeps the writes
  made before it.\<close>

type_synonym state = "heap \<times> val"

subsection \<open>Files\<close>

text \<open>The slot a field of the catalog refers to exists, unless the entry holds the invalid
  \<open>reflect.Value\<close> of a nil pointer, which has no type and cannot be set.\<close>

text \<open>What \<open>readFileMap\<close> does with a value found in the file, on the value the slot holds:
  the outcome and the value the slot holds afterwards. \<open>Value.Set\<close> panics on a slot
  that cannot be set and on a value of another type.\<close>

definition decode_into :: "extlib \<Rightarrow> bool \<Rightarrow> val \<Rightarrow> fval \<Rightarrow> unit outcome \<times> val" where
  "decode_into lib canSet target valueForField =
     (case mapstructure_Decode lib valueForField (zero_of target) of
        None \<Rightarrow>
          (case valueForField of
             FString valueString \<Rightarrow> coerce_into lib canSet target valueString
           | _ \<Rightarrow>
               if Kind_Struct target then (Ok (), target)
               else (Err (ErrLibrary ''mapstructure: decoding failed''), target))
      | Some v \<Rightarrow>
          if \<not> canSet
          then (Panic ''reflect: reflect.Value.Set using value obtained using unexported field'', target)
          else if type_of v \<noteq> type_of target
          then (Panic ''reflect.Set: value is not assignable'', target)
          else (Ok (), v))"

definition set_field_from_file :: "extlib \<Rightarrow> field \<Rightarrow> fval \<Rightarrow> val \<Rightarrow> unit outcome \<times> val" where
  "set_field_from_file lib f valueForField root =
     (case get_at root (slot (Value f)) of
        None \<Rightarrow> (Panic ''reflect: call of reflect.Value.Type on zero Value'', root)
      | Some target \<Rightarrow>
          (case decode_into lib (settable (Value f)) target valueForField of
             (r, v) \<Rightarrow> (r, set_at root (slot (Value f)) v)))"

text \<open>One name of one field against one decoded file: the body of the inner loop of
  \<open>readFileMap\<close>.\<close>

definition readFileMap_name ::
  "extlib \<Rightarrow> field \<Rightarrow> string \<Rightarrow> (string \<times> fval) list \<Rightarrow> string \<Rightarrow> val \<Rightarrow> unit outcome \<times> val" where
  "readFileMap_name lib f separator m fieldName root =
     (case ciMap_Get separator m fieldName of
        None \<Rightarrow> (Ok (), root)
      | Some valueForField \<Rightarrow> set_field_from_file lib f valueForField root)"

fun readFileMap_names ::
  "extlib \<Rightarrow> field \<Rightarrow> string \<Rightarrow> (string \<times> fval) list \<Rightarrow> string list \<Rightarrow> val \<Rightarrow> unit outcome \<times> val" where
  "readFileMap_names lib f separator m [] root = (Ok (), root)"
| "readFileMap_names lib f separator m (fieldName # fieldNames) root =
     (case readFileMap_name lib f separator m fieldName root of
        (Ok u, root1) \<Rightarrow> readFileMap_names lib f separator m fieldNames root1
      | (r, root1) \<Rightarrow> (r, root1))"

fun readFileMap ::
  "extlib \<Rightarrow> field list \<Rightarrow> string \<Rightarrow> (string \<times> fval) list \<Rightarrow> state \<Rightarrow> unit outcome \<times> state" where
  "readFileMap lib [] separator m (h, root) = (Ok (), (h, root))"
| "readFileMap lib (f # fs) separator m (h, root) =
     (case FullName h f separator of
        (fullName, h1) \<Rightarrow>
          (case readFileMap_names lib f separator m [DefaultFileField (Config f), fullName] root of
             (Ok u, root1) \<Rightarrow> readFileMap lib fs separator m (h1, root1)
           | (r, root1) \<Rightarrow> (r, (h1, root1))))"

definition unmarshal :: "extlib \<Rightarrow> string \<Rightarrow> (string \<times> fval) list outcome" where
  "unmarshal lib bytes =
     (case yaml_Unmarshal lib bytes of
        Some m \<Rightarrow> Ok m
      | None \<Rightarrow>
          (case json_Unmarshal lib bytes of
             Some m \<Rightarrow> Ok m
           | None \<Rightarrow> Err ErrFileTypeNotSupported))"

text \<open>\<open>path.Ext\<close>: the suffix from the last dot of the last element of the path.\<close>

fun ext_scan :: "string \<Rightarrow> string \<Rightarrow> string" where
  "ext_scan [] suffix = []"
| "ext_scan (c # cs) suffix =
     (if c = CHR ''/'' then []
      else if c = CHR ''.'' then c # suffix
      else ext_scan cs (c # suffix))"

definition path_Ext :: "string \<Rightarrow> string" where
  "path_Ext name = ext_scan (rev name) []"

definition strings_TrimSuffix :: "string \<Rightarrow> string \<Rightarrow> string" where
  "strings_TrimSuffix s suffix =
     (if length suffix \<le> length s \<and> drop (length s - length suffix) s = suffix
      then take (length s - length suffix) s
      else s)"

text \<open>The files of one location, in the order of the listing; \<open>fileFound\<close> is carried
  along.\<close>

fun readFiles_infos ::
  "extlib \<Rightarrow> os \<Rightarrow> field list \<Rightarrow> FilesConfig \<Rightarrow> string \<Rightarrow> string list \<Rightarrow> bool \<Rightarrow> state
     \<Rightarrow> (unit outcome \<times> bool) \<times> state" where
  "readFiles_infos lib sys fs config fileLocation [] fileFound st = ((Ok (), fileFound), st)"
| "readFiles_infos lib sys fs config fileLocation (name # names) fileFound st =
     (if strings_TrimSuffix name (path_Ext name) \<noteq> BaseName config
      then readFiles_infos lib sys fs config fileLocation names fileFound st
      else (case ioutil_ReadFile sys fileLocation name of
              None \<Rightarrow> ((Err (ErrLibrary ''read file''), True), st)
            | Some fileBytes \<Rightarrow>
                (case unmarshal lib fileBytes of
                   Err e \<Rightarrow> ((Err e, True), st)
                 | Panic msg \<Rightarrow> ((Panic msg, True), st)
                 | Ok m \<Rightarrow>
                     (case readFileMap lib fs (Files_Separator config) m st of
                        (Ok u, st1) \<Rightarrow> readFiles_infos lib sys fs config fileLocation names True st1
                      | (r, st1) \<Rightarrow> ((r, True), st1)))))"

fun readFiles_locations ::
  "extlib \<Rightarrow> os \<Rightarrow> field list \<Rightarrow> FilesConfig \<Rightarrow> string list \<Rightarrow> bool \<Rightarrow> state
     \<Rightarrow> unit outcome \<times> state" where
  "readFiles_locations lib sys fs config [] fileFound st =
     (if \<not> fileFound then (Err ErrNoFileFound, st) else (Ok (), st))"
| "readFiles_locations lib sys fs config (fileLocation # rest) fileFound st =
     (case ioutil_ReadDir sys fileLocation of
        None \<Rightarrow> readFiles_locations lib sys fs config rest fileFound st
      | Some fileInfos \<Rightarrow>
          (case readFiles_infos lib sys fs config fileLocation fileInfos fileFound st of
             ((Ok u, found1), st1) \<Rightarrow> readFiles_locations lib sys fs config rest found1 st1
           | ((r, found1), st1) \<Rightarrow> (r, st1)))"

definition readFiles :: "extlib \<Rightarrow> os \<Rightarrow> field list \<Rightarrow> FilesConfig \<Rightarrow> state \<Rightarrow> unit outcome \<times> state" where
  "readFiles lib sys fs config st = readFiles_locations lib sys fs config (Locations config) False st"

subsection \<open>Environment variables\<close>

fun getEnvAsMap_loop :: "string list \<Rightarrow> (string \<rightharpoonup> string) \<Rightarrow> (string \<rightharpoonup> string) outcome" where
  "getEnvAsMap_loop [] envMap = Ok envMap"
| "getEnvAsMap_loop (keyVal # rest) envMap =
     (case strings_SplitN2 keyVal (CHR ''='') of
        [k, v] \<Rightarrow> getEnvAsMap_loop rest (envMap(k \<mapsto> v))
      | _ \<Rightarrow> Panic ''index out of range [1] with length 1'')"

definition getEnvAsMap :: "os \<Rightarrow> (string \<rightharpoonup> string) outcome" where
  "getEnvAsMap sys = getEnvAsMap_loop (Environ sys) Map.empty"

text \<open>\<open>setFromString\<close> on the slot of a field.\<close>

definition set_field_from_string :: "extlib \<Rightarrow> field \<Rightarrow> string \<Rightarrow> val \<Rightarrow> unit outcome \<times> val" where
  "set_field_from_string lib f value root =
     (case get_at root (slot (Value f)) of
        None \<Rightarrow> (Err ErrCantSet, root)
      | Some target \<Rightarrow>
          (case coerce_into lib (settable (Value f)) target value of
             (r, v) \<Rightarrow> (r, set_at root (slot (Value f)) v)))"

fun readEnv_names :: "extlib \<Rightarrow> field \<Rightarrow> (string \<rightharpoonup> string) \<Rightarrow> string list \<Rightarrow> val \<Rightarrow> unit outcome \<times> val" where
  "readEnv_names lib f vars [] root = (Ok (), root)"
| "readEnv_names lib f vars (envName # envNames) root =
     (case vars (strings_ToUpper envName) of
        None \<Rightarrow> readEnv_names lib f vars envNames root
      | Some envVal \<Rightarrow>
          (case set_field_from_string lib f envVal root of
             (Ok u, root1) \<Rightarrow> readEnv_names lib f vars envNames root1
           | (r, root1) \<Rightarrow> (r, root1)))"

definition distinctEnvName :: "EnvConfig \<Rightarrow> string \<Rightarrow> string" where
  "distinctEnvName config fullName =
     (if Prefix config \<noteq> [] then Prefix config @ Env_Separator config @ fullName else fullName)"

fun readEnv :: "extlib \<Rightarrow> field list \<Rightarrow> EnvConfig \<Rightarrow> (string \<rightharpoonup> string) \<Rightarrow> state \<Rightarrow> unit outcome \<times> state" where
  "readEnv lib [] config vars (h, root) = (Ok (), (h, root))"
| "readEnv lib (f # fs) config vars (h, root) =
     (case FullName h f (Env_Separator config) of
        (fullName, h1) \<Rightarrow>
          (case readEnv_names lib f vars [DefaultEnvName (Config f), distinctEnvName config fullName] root of
             (Ok u, root1) \<Rightarrow> readEnv lib fs config vars (h1, root1)
           | (r, root1) \<Rightarrow> (r, (h1, root1))))"


subsection \<open>Command-line flags\<close>

text \<open>The first loop of \<open>readPFlags\<close>: the flags registered, in order, each with its
  name and shorthand; the default names in \<open>fieldCache\<close>; and for every field, by its
  position in the catalog, the names of its two flags (the shared default identity and
  the field-specific identity), which is what \<open>fieldToFlagInfo\<close> holds.\<close>

fun readPFlags_register ::
  "field list \<Rightarrow> FlagsConfig \<Rightarrow> heap \<Rightarrow> (string \<times> string) list \<Rightarrow> string list \<Rightarrow> (string \<times> string) list
     \<Rightarrow> (string \<times> string) list \<times> (string \<times> string) list \<times> heap" where
  "readPFlags_register [] config h flagSet fieldCache fieldToFlagInfo = (flagSet, fieldToFlagInfo, h)"
| "readPFlags_register (f # fs) config h flagSet fieldCache fieldToFlagInfo =
     (case FullName h f (Flags_Separator config) of
        (fullName, h1) \<Rightarrow>
          (let longName = strings_ToLower fullName;
               defaultName = DefaultName (Flag (Config f));
               ok = (defaultName \<in> set fieldCache);
               flagSet1 = (if ok then flagSet else flagSet @ [(defaultName, [])]);
               fieldCache1 = (if ok then fieldCache else defaultName # fieldCache)
           in readPFlags_register fs config h1
                (flagSet1 @ [(longName, ShortName (Flag (Config f)))])
                fieldCache1
                (fieldToFlagInfo @ [(defaultName, longName)])))"

text \<open>The inner loop of the second loop: the flags of one field, the default identity
  first, each applied only when it is \<open>Changed\<close>.\<close>

fun readPFlags_infos ::
  "extlib \<Rightarrow> field \<Rightarrow> (string \<Rightarrow> string \<times> bool) \<Rightarrow> string list \<Rightarrow> val \<Rightarrow> unit outcome \<times> val" where
  "readPFlags_infos lib f parsed [] root = (Ok (), root)"
| "readPFlags_infos lib f parsed (name # names) root =
     (case parsed name of
        (valueStr, changed) \<Rightarrow>
          if \<not> changed then readPFlags_infos lib f parsed names root
          else (case set_field_from_string lib f valueStr root of
                  (Ok u, root1) \<Rightarrow> readPFlags_infos lib f parsed names root1
                | (r, root1) \<Rightarrow> (r, root1)))"

text \<open>The second loop ranges over the map \<open>fieldToFlagInfo\<close>, whose keys are the fields of
  the catalog; \<open>order\<close> is the order in which the runtime visits them in this call (as
  positions in the catalog), any permutation.\<close>

fun readPFlags_fields ::
  "extlib \<Rightarrow> field list \<Rightarrow> (string \<times> string) list \<Rightarrow> (string \<Rightarrow> string \<times> bool) \<Rightarrow> nat list \<Rightarrow> val
     \<Rightarrow> unit outcome \<times> val" where
  "readPFlags_fields lib fs fieldToFlagInfo parsed [] root = (Ok (), root)"
| "readPFlags_fields lib fs fieldToFlagInfo parsed (i # order) root =
     (if i < length fs \<and> i < length fieldToFlagInfo
      then (case readPFlags_infos lib (fs ! i) parsed
                   [fst (fieldToFlagInfo ! i), snd (fieldToFlagInfo ! i)] root of
              (Ok u, root1) \<Rightarrow> readPFlags_fields lib fs fieldToFlagInfo parsed order root1
            | (r, root1) \<Rightarrow> (r, root1))
      else readPFlags_fields lib fs fieldToFlagInfo parsed order root)"

definition readPFlags ::
  "extlib \<Rightarrow> field list \<Rightarrow> FlagsConfig \<Rightarrow> string list \<Rightarrow> nat list \<Rightarrow> state \<Rightarrow> unit outcome \<times> state" where
  "readPFlags lib fs config args order st =
     (case st of
        (h, root) \<Rightarrow>
          (case readPFlags_register fs config h [] [] [] of
             (flagSet, fieldToFlagInfo, h1) \<Rightarrow>
               (case pflag_Parse lib flagSet args of
                  Err e \<Rightarrow> (Err e, (h1, root))
                | Panic msg \<Rightarrow> (Panic msg, (h1, root))
                | Ok parsed \<Rightarrow>
                    (case readPFlags_fields lib fs fieldToFlagInfo parsed order root of
                       (r, root1) \<Rightarrow> (r, (h1, root1))))))"


section \<open>The Collector\<close>

text \<open>The argument of \<open>Get\<close>: a pointer to a value, or a value that is no pointer. What
  \<open>reflect.Indirect\<close> gives for the pointer is the root of the settings object and can
  be set.\<close>

definition root_value :: rvalue where
  "root_value = \<lparr>slot = [], settable = True\<rparr>"


datatype goarg = Pointer val | NonPointer val

definition and_then ::
  "unit outcome \<times> state \<Rightarrow> (state \<Rightarrow> unit outcome \<times> state) \<Rightarrow> unit outcome \<times> state" where
  "and_then r next = (case r of (Ok u, st) \<Rightarrow> next st | (e, st) \<Rightarrow> (e, st))"

definition Get_files :: "extlib \<Rightarrow> os \<Rightarrow> Collector \<Rightarrow> field list \<Rightarrow> state \<Rightarrow> unit outcome \<times> state" where
  "Get_files lib sys c fs st =
     (if \<not> Files_Disabled (Files c)
      then (case readFiles lib sys fs (Files c) st of
              (Err e, st1) \<Rightarrow> if e \<noteq> ErrNoFileFound then (Err e, st1) else (Ok (), st1)
            | (r, st1) \<Rightarrow> (r, st1))
      else (Ok (), st))"

definition Get_env :: "extlib \<Rightarrow> os \<Rightarrow> Collector \<Rightarrow> field list \<Rightarrow> state \<Rightarrow> unit outcome \<times> state" where
  "Get_env lib sys c fs st =
     (if \<not> Env_Disabled (Env c)
      then (case getEnvAsMap sys of
              Ok vars \<Rightarrow> readEnv lib fs (Env c) vars st
            | Err e \<Rightarrow> (Err e, st)
            | Panic msg \<Rightarrow> (Panic msg, st))
      else (Ok (), st))"

definition Get_flags ::
  "extlib \<Rightarrow> os \<Rightarrow> nat list \<Rightarrow> Collector \<Rightarrow> field list \<Rightarrow> state \<Rightarrow> unit outcome \<times> state" where
  "Get_flags lib sys order c fs st =
     (if \<not> Flags_Disabled (Flags c)
      then readPFlags lib fs (Flags c) (Args sys) order st
      else (Ok (), st))"

text \<open>\<open>Collector.Get\<close>: what it returns, and the settings object afterwards.\<close>

definition Collector_Get :: "extlib \<Rightarrow> os \<Rightarrow> nat list \<Rightarrow> Collector \<Rightarrow> goarg \<Rightarrow> unit outcome \<times> val" where
  "Collector_Get lib sys order c v =
     (case v of
        NonPointer x \<Rightarrow> (Err ErrPointerExpected, x)
      | Pointer t \<Rightarrow>
          (case getFieldsConfigsFromValue [] t root_value nil_slice of
             Err e \<Rightarrow> (Err e, t)
           | Panic msg \<Rightarrow> (Panic msg, t)
           | Ok (fs, h) \<Rightarrow>
               (case and_then (and_then (Get_files lib sys c fs (h, t)) (Get_env lib sys c fs))
                       (Get_flags lib sys order c fs) of
                  (r, (h1, t1)) \<Rightarrow> (r, t1))))"

definition DefaultCollector :: Collector where
  "DefaultCollector =
     \<lparr>Files = \<lparr>Locations = [''.''], BaseName = ''config'', Files_Separator = ''.'', Files_Disabled = False\<rparr>,
      Env = \<lparr>Prefix = [], Env_Separator = ''_'', Env_Disabled = False\<rparr>,
      Flags = \<lparr>Flags_Separator = ''-'', Flags_Disabled = False\<rparr>\<rparr>"


section \<open>Reading the model\<close>

text \<open>The names \<open>FullName\<close> returns when it is called on the fields of a list in order,
  from a given heap, as every reader does; and the heap after such a pass.\<close>

fun pass_names :: "heap \<Rightarrow> field list \<Rightarrow> string \<Rightarrow> string list" where
  "pass_names h [] separator = []"
| "pass_names h (f # fs) separator =
     (case FullName h f separator of (fullName, h1) \<Rightarrow> fullName # pass_names h1 fs separator)"

fun pass_heap :: "heap \<Rightarrow> field list \<Rightarrow> string \<Rightarrow> heap" where
  "pass_heap h [] separator = h"
| "pass_heap h (f # fs) separator =
     (case FullName h f separator of (fullName, h1) \<Rightarrow> pass_heap h1 fs separator)"

text \<open>The annotations of the fields the catalog visits, in the order it visits them.\<close>

primrec annotations :: "val \<Rightarrow> string list" and annotations_field :: "sfield \<Rightarrow> string list" where
  "annotations (VInt k n) = []"
| "annotations (VUint k n) = []"
| "annotations (VBool b) = []"
| "annotations (VString s) = []"
| "annotations (VStrings xs) = []"
| "annotations (VStringMap m) = []"
| "annotations (VExt k t) = []"
| "annotations (VNil ty) = []"
| "annotations (VTime fs) = concat (map annotations_field fs)"
| "annotations (VStruct fs) = concat (map annotations_field fs)"
| "annotations_field (SField n tg v) = tg # annotations v"

text \<open>An element of an annotation that is no \<open>key=value\<close> pair with a key among \<open>env\<close>,
  \<open>file\<close> and \<open>flag\<close> and a value that is not empty.\<close>

definition defective :: "string \<Rightarrow> bool" where
  "defective el =
     (case strings_SplitN2 el (CHR ''='') of
        [key, val] \<Rightarrow> key = [] \<or> val = [] \<or> (key \<noteq> ''env'' \<and> key \<noteq> ''file'' \<and> key \<noteq> ''flag'')
      | _ \<Rightarrow> True)"

text \<open>The first annotation of a list that \<open>readParameterConfig\<close> does not accept, with what
  it answers.\<close>

fun first_rejected :: "string list \<Rightarrow> parameterConfig outcome option" where
  "first_rejected [] = None"
| "first_rejected (tg # tgs) =
     (case readParameterConfig tg of Ok cfg \<Rightarrow> first_rejected tgs | r \<Rightarrow> Some r)"


section \<open>The assignments of a merge\<close>

text \<open>
  Every reader is a sequence of assignments to slots of the settings object: a field
  and a text given to \<open>setFromString\<close>, or a field and a file value given to the decoder.
  Which assignments a reader attempts depends on the catalog and the source, not on the
  settings object; the object decides only whether an assignment succeeds, and a reader
  stops at the first that does not. The definitions below list the assignments of each
  reader, separately from running them; the properties section proves that the readers
  of the source do exactly that.
\<close>

datatype assignment = FromString field string | FromFile field fval

fun assigned_field :: "assignment \<Rightarrow> field" where
  "assigned_field (FromString f s) = f"
| "assigned_field (FromFile f x) = f"

fun assigned_text :: "assignment \<Rightarrow> string" where
  "assigned_text (FromString f s) = s"
| "assigned_text (FromFile f x) = []"

fun is_FromString :: "assignment \<Rightarrow> bool" where
  "is_FromString (FromString f s) = True"
| "is_FromString (FromFile f x) = False"

definition assigned_slot :: "assignment \<Rightarrow> nat list" where
  "assigned_slot w = slot (Value (assigned_field w))"

text \<open>An assignment on the settings object, and a sequence of them, stopping at the first
  that fails.\<close>

fun apply_assignment :: "extlib \<Rightarrow> assignment \<Rightarrow> val \<Rightarrow> unit outcome \<times> val" where
  "apply_assignment lib (FromString f s) root = set_field_from_string lib f s root"
| "apply_assignment lib (FromFile f x) root = set_field_from_file lib f x root"

fun run_assignments :: "extlib \<Rightarrow> assignment list \<Rightarrow> val \<Rightarrow> unit outcome \<times> val" where
  "run_assignments lib [] root = (Ok (), root)"
| "run_assignments lib (w # ws) root =
     (case apply_assignment lib w root of
        (Ok u, root1) \<Rightarrow> run_assignments lib ws root1
      | (r, root1) \<Rightarrow> (r, root1))"

text \<open>The same on the value of the slot alone.\<close>

fun assign_target :: "extlib \<Rightarrow> assignment \<Rightarrow> val \<Rightarrow> unit outcome \<times> val" where
  "assign_target lib (FromString f s) target = coerce_into lib (settable (Value f)) target s"
| "assign_target lib (FromFile f x) target = decode_into lib (settable (Value f)) target x"

fun run_target :: "extlib \<Rightarrow> assignment list \<Rightarrow> val \<Rightarrow> unit outcome \<times> val" where
  "run_target lib [] target = (Ok (), target)"
| "run_target lib (w # ws) target =
     (case assign_target lib w target of
        (Ok u, target1) \<Rightarrow> run_target lib ws target1
      | (r, target1) \<Rightarrow> (r, target1))"

text \<open>Two slots overlap when one encloses the other (or they are the same slot): the
  slot of a struct field and the slots of the fields inside it. A slot is isolated in a
  sequence of assignments when every assignment is to the slot itself or to a slot that
  does not overlap it; \<open>own\<close> are the assignments to the slot itself.\<close>

definition overlap :: "nat list \<Rightarrow> nat list \<Rightarrow> bool" where
  "overlap p q = (take (length p) q = p \<or> take (length q) p = q)"

definition isolated :: "nat list \<Rightarrow> assignment list \<Rightarrow> bool" where
  "isolated p ws = (\<forall>w \<in> set ws. assigned_slot w = p \<or> \<not> overlap (assigned_slot w) p)"

definition own :: "nat list \<Rightarrow> assignment list \<Rightarrow> assignment list" where
  "own p ws = filter (\<lambda>w. assigned_slot w = p) ws"

subsection \<open>What each source supplies\<close>

text \<open>The Flag Reader: for every field in the order of the map iteration, the value of its
  default flag if that flag is \<open>Changed\<close>, then the value of its specific flag if that one
  is. \<open>flag_names\<close> are the two flag names of every field, as the first loop computes
  them from a heap \<open>h\<close>; \<open>flags_registered\<close> is what that loop registers.\<close>

definition flag_assignments_field :: "field \<Rightarrow> (string \<Rightarrow> string \<times> bool) \<Rightarrow> string list \<Rightarrow> assignment list" where
  "flag_assignments_field f parsed names =
     concat (map (\<lambda>name. if snd (parsed name) then [FromString f (fst (parsed name))] else []) names)"

definition flag_assignments ::
  "field list \<Rightarrow> (string \<times> string) list \<Rightarrow> (string \<Rightarrow> string \<times> bool) \<Rightarrow> nat list \<Rightarrow> assignment list" where
  "flag_assignments fs infos parsed order =
     concat (map (\<lambda>i. if i < length fs \<and> i < length infos
                        then flag_assignments_field (fs ! i) parsed [fst (infos ! i), snd (infos ! i)]
                        else []) order)"

definition flags_registered :: "field list \<Rightarrow> FlagsConfig \<Rightarrow> heap \<Rightarrow> (string \<times> string) list" where
  "flags_registered fs config h = fst (readPFlags_register fs config h [] [] [])"

definition flag_names :: "field list \<Rightarrow> FlagsConfig \<Rightarrow> heap \<Rightarrow> (string \<times> string) list" where
  "flag_names fs config h =
     map2 (\<lambda>f fullName. (DefaultName (Flag (Config f)), strings_ToLower fullName))
       fs (pass_names h fs (Flags_Separator config))"

text \<open>The Env Reader: for every field in catalog order, the value under its
  \<open>DefaultEnvName\<close> if the table has it, then the value under its computed name if the
  table has it.\<close>

definition env_assignments_field :: "field \<Rightarrow> (string \<rightharpoonup> string) \<Rightarrow> string list \<Rightarrow> assignment list" where
  "env_assignments_field f vars envNames =
     concat (map (\<lambda>envName. case vars (strings_ToUpper envName) of
                                 None \<Rightarrow> [] | Some envVal \<Rightarrow> [FromString f envVal]) envNames)"

definition env_assignments :: "field list \<Rightarrow> EnvConfig \<Rightarrow> (string \<rightharpoonup> string) \<Rightarrow> heap \<Rightarrow> assignment list" where
  "env_assignments fs config vars h =
     concat (map2 (\<lambda>f fullName. env_assignments_field f vars
                      [DefaultEnvName (Config f), distinctEnvName config fullName])
               fs (pass_names h fs (Env_Separator config)))"

text \<open>The File Reader, for one decoded file: for every field in catalog order, the value
  under its \<open>DefaultFileField\<close> if found, then the value under its full path if found.\<close>

definition file_assignments_field :: "field \<Rightarrow> string \<Rightarrow> (string \<times> fval) list \<Rightarrow> string list \<Rightarrow> assignment list" where
  "file_assignments_field f separator m fieldNames =
     concat (map (\<lambda>fieldName. case ciMap_Get separator m fieldName of
                                 None \<Rightarrow> [] | Some valueForField \<Rightarrow> [FromFile f valueForField]) fieldNames)"

definition file_assignments :: "field list \<Rightarrow> string \<Rightarrow> (string \<times> fval) list \<Rightarrow> heap \<Rightarrow> assignment list" where
  "file_assignments fs separator m h =
     concat (map2 (\<lambda>f fullName. file_assignments_field f separator m [DefaultFileField (Config f), fullName])
               fs (pass_names h fs separator))"

text \<open>The decoded files the File Reader goes through, in order, as long as every matching
  file is read and decoded.\<close>

fun decoded_infos :: "extlib \<Rightarrow> os \<Rightarrow> FilesConfig \<Rightarrow> string \<Rightarrow> string list \<Rightarrow> (string \<times> fval) list list" where
  "decoded_infos lib sys config fileLocation [] = []"
| "decoded_infos lib sys config fileLocation (name # names) =
     (if strings_TrimSuffix name (path_Ext name) \<noteq> BaseName config
      then decoded_infos lib sys config fileLocation names
      else (case ioutil_ReadFile sys fileLocation name of
              None \<Rightarrow> []
            | Some fileBytes \<Rightarrow>
                (case unmarshal lib fileBytes of
                   Ok m \<Rightarrow> m # decoded_infos lib sys config fileLocation names
                 | _ \<Rightarrow> [])))"

fun decoded_files :: "extlib \<Rightarrow> os \<Rightarrow> FilesConfig \<Rightarrow> string list \<Rightarrow> (string \<times> fval) list list" where
  "decoded_files lib sys config [] = []"
| "decoded_files lib sys config (fileLocation # rest) =
     (case ioutil_ReadDir sys fileLocation of
        None \<Rightarrow> decoded_files lib sys config rest
      | Some fileInfos \<Rightarrow>
          decoded_infos lib sys config fileLocation fileInfos @ decoded_files lib sys config rest)"

text \<open>What the File Reader assigns for a list of decoded files, one pass over the catalog
  for each, and the heap after these passes.\<close>

fun files_assignments :: "field list \<Rightarrow> string \<Rightarrow> (string \<times> fval) list list \<Rightarrow> heap \<Rightarrow> assignment list" where
  "files_assignments fs separator [] h = []"
| "files_assignments fs separator (m # ms) h =
     file_assignments fs separator m h @ files_assignments fs separator ms (pass_heap h fs separator)"

fun files_heap :: "field list \<Rightarrow> string \<Rightarrow> (string \<times> fval) list list \<Rightarrow> heap \<Rightarrow> heap" where
  "files_heap fs separator [] h = h"
| "files_heap fs separator (m # ms) h = files_heap fs separator ms (pass_heap h fs separator)"

text \<open>The three stages of \<open>Get\<close> on a catalog \<open>fs\<close> built with the heap \<open>h0\<close>: what the
  files, the environment and the flags supply when every stage before has returned
  without error, and the heap each stage starts from. A disabled stage supplies
  nothing.\<close>

definition Get_decoded_files :: "extlib \<Rightarrow> os \<Rightarrow> Collector \<Rightarrow> (string \<times> fval) list list" where
  "Get_decoded_files lib sys c =
     (if Files_Disabled (Files c) then [] else decoded_files lib sys (Files c) (Locations (Files c)))"

definition files_supplied :: "extlib \<Rightarrow> os \<Rightarrow> Collector \<Rightarrow> field list \<Rightarrow> heap \<Rightarrow> assignment list" where
  "files_supplied lib sys c fs h0 =
     files_assignments fs (Files_Separator (Files c)) (Get_decoded_files lib sys c) h0"

definition heap_after_files :: "extlib \<Rightarrow> os \<Rightarrow> Collector \<Rightarrow> field list \<Rightarrow> heap \<Rightarrow> heap" where
  "heap_after_files lib sys c fs h0 =
     files_heap fs (Files_Separator (Files c)) (Get_decoded_files lib sys c) h0"

definition env_supplied :: "extlib \<Rightarrow> os \<Rightarrow> Collector \<Rightarrow> field list \<Rightarrow> heap \<Rightarrow> assignment list" where
  "env_supplied lib sys c fs h0 =
     (if Env_Disabled (Env c) then []
      else (case getEnvAsMap sys of
              Ok vars \<Rightarrow> env_assignments fs (Env c) vars (heap_after_files lib sys c fs h0)
            | _ \<Rightarrow> []))"

definition heap_after_env :: "extlib \<Rightarrow> os \<Rightarrow> Collector \<Rightarrow> field list \<Rightarrow> heap \<Rightarrow> heap" where
  "heap_after_env lib sys c fs h0 =
     (if Env_Disabled (Env c) then heap_after_files lib sys c fs h0
      else pass_heap (heap_after_files lib sys c fs h0) fs (Env_Separator (Env c)))"

definition flags_supplied :: "extlib \<Rightarrow> os \<Rightarrow> nat list \<Rightarrow> Collector \<Rightarrow> field list \<Rightarrow> heap \<Rightarrow> assignment list" where
  "flags_supplied lib sys order c fs h0 =
     (if Flags_Disabled (Flags c) then []
      else (case pflag_Parse lib (flags_registered fs (Flags c) (heap_after_env lib sys c fs h0)) (Args sys) of
              Ok parsed \<Rightarrow>
                flag_assignments fs (flag_names fs (Flags c) (heap_after_env lib sys c fs h0)) parsed order
            | _ \<Rightarrow> []))"


section \<open>The paths a pass computes\<close>

text \<open>The dotted paths of the settings type in the order the catalog visits its fields: the
  names of the enclosing struct fields, then the field's own name, joined by the separator.\<close>

primrec true_names :: "val \<Rightarrow> string list \<Rightarrow> string \<Rightarrow> string list"
  and true_names_field :: "sfield \<Rightarrow> string list \<Rightarrow> string \<Rightarrow> string list" where
  "true_names (VInt k n) tb sep = []"
| "true_names (VUint k n) tb sep = []"
| "true_names (VBool b) tb sep = []"
| "true_names (VString s) tb sep = []"
| "true_names (VStrings xs) tb sep = []"
| "true_names (VStringMap m) tb sep = []"
| "true_names (VExt k t) tb sep = []"
| "true_names (VNil ty) tb sep = []"
| "true_names (VTime fs) tb sep = concat (map (\<lambda>f. true_names_field f tb sep) fs)"
| "true_names (VStruct fs) tb sep = concat (map (\<lambda>f. true_names_field f tb sep) fs)"
| "true_names_field (SField n tg v) tb sep = strings_Join (tb @ [n]) sep # true_names v (tb @ [n]) sep"

text \<open>A slice whose backing array is in the heap and has the length of its capacity; two heaps
  of which the second keeps the arrays of the first at their lengths.\<close>

definition wf_slice :: "heap \<Rightarrow> slice \<Rightarrow> bool" where
  "wf_slice h s = (len s \<le> cap s \<and> (cap s = 0 \<or> (arr s < length h \<and> length (h ! arr s) = cap s)))"

definition same_shape :: "heap \<Rightarrow> heap \<Rightarrow> bool" where
  "same_shape h g = (length h \<le> length g \<and> (\<forall>a < length h. length (g ! a) = length (h ! a)))"

text \<open>The cells a pass over a list of fields writes: \<open>FullName\<close> appends to the base of the
  field, in place when the base has room.\<close>

definition volatile :: "field list \<Rightarrow> (nat \<times> nat) set" where
  "volatile fs = {(arr (Base f), len (Base f)) |f. f \<in> set fs \<and> len (Base f) < cap (Base f)}"

text \<open>What the construction of a part of the catalog under a base leaves of the heap it starts
  from, and where the bases of the fields it records lie: in the array of the base from
  its length on, or in an array allocated meanwhile.\<close>

definition built_frame :: "heap \<Rightarrow> heap \<Rightarrow> slice \<Rightarrow> bool" where
  "built_frame h h' base =
     (\<forall>a < length h. \<forall>k. (a = arr base \<and> len base \<le> k \<and> 0 < cap base) \<or> h' ! a ! k = h ! a ! k)"

definition entries_ok :: "heap \<Rightarrow> heap \<Rightarrow> slice \<Rightarrow> field list \<Rightarrow> bool" where
  "entries_ok h h' base new =
     (\<forall>f \<in> set new. wf_slice h' (Base f)
        \<and> ((arr (Base f) = arr base \<and> len base \<le> len (Base f) \<and> cap (Base f) = cap base)
            \<or> (length h \<le> arr (Base f) \<and> 0 < cap (Base f))))"

text \<open>A heap on which a pass over the fields \<open>new\<close> may start (the base holds the path \<open>tb\<close>,
  and the arrays allocated for these fields are as the construction left them, but for the
  cells a pass writes), and what a pass leaves of it.\<close>

definition pass_pre :: "heap \<Rightarrow> heap \<Rightarrow> slice \<Rightarrow> string list \<Rightarrow> field list \<Rightarrow> heap \<Rightarrow> bool" where
  "pass_pre h h' base tb new g =
     (same_shape h' g \<and> slice_elems g base = tb
      \<and> (\<forall>a k. length h \<le> a \<and> a < length h' \<and> (a, k) \<notin> volatile new \<longrightarrow> g ! a ! k = h' ! a ! k))"

definition pass_post :: "field list \<Rightarrow> heap \<Rightarrow> heap \<Rightarrow> bool" where
  "pass_post new g g' =
     (same_shape g g' \<and> (\<forall>a < length g. \<forall>k. (a, k) \<in> volatile new \<or> g' ! a ! k = g ! a ! k))"

text \<open>The construction from \<open>h\<close> to \<open>h'\<close> has recorded the fields \<open>new\<close> under \<open>base\<close>; a pass over
  them returns \<open>names\<close>.\<close>

definition built :: "heap \<Rightarrow> heap \<Rightarrow> slice \<Rightarrow> string list \<Rightarrow> field list \<Rightarrow> string list \<Rightarrow> string \<Rightarrow> bool" where
  "built h h' base tb new names sep =
     (same_shape h h' \<and> built_frame h h' base \<and> entries_ok h h' base new
      \<and> (\<forall>g. pass_pre h h' base tb new g \<longrightarrow>
             pass_names g new sep = names \<and> pass_post new g (pass_heap g new sep)))"


section \<open>Example inputs\<close>

text \<open>A decoder for three shapes (a text into a string field, a number into a signed integer
  field, a mapping into a struct of such fields: the keys are matched with the field names
  ignoring case, and a field without a key keeps the zero value it is given), a parser
  for one instant, a flag parser for arguments of the form \<open>--name=value\<close> naming
  registered flags, a file system with one directory, and the settings objects of the
  examples.\<close>

definition example_scalar :: "fval \<Rightarrow> val \<Rightarrow> val option" where
  "example_scalar x zero =
     (case (x, zero) of
        (FString s, VString z) \<Rightarrow> Some (VString s)
      | (FScalar s, VInt k z) \<Rightarrow>
          (case strconv_ParseInt s 0 of Inr n \<Rightarrow> Some (VInt k (SetInt k n)) | Inl e \<Rightarrow> None)
      | _ \<Rightarrow> None)"

fun example_fields :: "(string \<times> fval) list \<Rightarrow> sfield list \<Rightarrow> sfield list option" where
  "example_fields kvs [] = Some []"
| "example_fields kvs (SField n tg z # zs) =
     (case example_fields kvs zs of
        None \<Rightarrow> None
      | Some rest \<Rightarrow>
          (case ci_lookup kvs n of
             None \<Rightarrow> Some (SField n tg z # rest)
           | Some x \<Rightarrow>
               (case example_scalar x z of
                  None \<Rightarrow> None
                | Some v \<Rightarrow> Some (SField n tg v # rest))))"

definition example_decode :: "fval \<Rightarrow> val \<Rightarrow> val option" where
  "example_decode x zero =
     (case (x, zero) of
        (FMap kvs, VStruct zs) \<Rightarrow> map_option VStruct (example_fields kvs zs)
      | _ \<Rightarrow> example_scalar x zero)"

definition example_arg :: "string \<Rightarrow> string \<Rightarrow> string option" where
  "example_arg name a =
     (case strings_SplitN2 (drop 2 a) (CHR ''='') of
        [n, v] \<Rightarrow> if take 2 a = ''--'' \<and> n = name then Some v else None
      | _ \<Rightarrow> None)"

definition example_parsed :: "(string \<times> string) list \<Rightarrow> string list \<Rightarrow> string \<Rightarrow> string \<times> bool" where
  "example_parsed flagSet args name =
     foldl (\<lambda>cur a. case example_arg name a of Some v \<Rightarrow> (v, True) | None \<Rightarrow> cur)
       ([], False) (if name \<in> fst ` set flagSet then args else [])"

definition example_pflag :: "(string \<times> string) list \<Rightarrow> string list \<Rightarrow> (string \<Rightarrow> string \<times> bool) outcome" where
  "example_pflag flagSet args = Ok (example_parsed flagSet args)"

definition example_time :: "string \<Rightarrow> sfield list option" where
  "example_time s =
     (if s = ''2020-01-01T00:00:00Z''
      then Some [SField ''wall'' [] (VUint KUint64 0), SField ''ext'' [] (VInt KInt64 63713433600),
                 SField ''loc'' [] (VNil ''time.Location'')]
      else None)"

definition example_lib :: "(string \<times> (string \<times> fval) list) list \<Rightarrow> extlib" where
  "example_lib decoded =
     \<lparr>strconv_ParseFloat = Some, strconv_ParseComplex = Some, time_ParseDuration = Some,
      time_Parse_RFC3339 = example_time, UnmarshalText = (\<lambda>ty. Some),
      mapstructure_Decode = example_decode,
      yaml_Unmarshal = map_of decoded, json_Unmarshal = (\<lambda>bytes. None),
      pflag_Parse = example_pflag\<rparr>"

definition example_os :: "(string \<times> string) list \<Rightarrow> string list \<Rightarrow> string list \<Rightarrow> os" where
  "example_os files environ args =
     \<lparr>ioutil_ReadDir = (\<lambda>loc. if loc = ''.'' then Some (map fst files) else None),
      ioutil_ReadFile = (\<lambda>loc. map_of files),
      Environ = environ, Args = args\<rparr>"

definition port_settings :: val where
  "port_settings = VStruct [SField ''Port'' ''env=LISTEN,file=p,flag=l listen'' (VInt KInt 3000)]"

definition port_field :: field where
  "port_field =
     \<lparr>Base = nil_slice, Name = ''Port'', Value = \<lparr>slot = [0], settable = True\<rparr>,
      Config = \<lparr>DefaultFileField = ''p'', DefaultEnvName = ''LISTEN'',
                 Flag = \<lparr>DefaultName = ''listen'', ShortName = ''l''\<rparr>\<rparr>\<rparr>"

definition port_file :: "(string \<times> fval) list" where
  "port_file = [(''p'', FScalar ''1''), (''port'', FScalar ''2'')]"

text \<open>A settings object with a nested struct: \<open>DB\<close> holds \<open>Port\<close> (preset 5, with the shared
  default flag \<open>listen\<close>) and \<open>Host\<close> (preset \<open>h\<close>). Its catalog has three entries, \<open>DB\<close>,
  \<open>DB.Port\<close> and \<open>DB.Host\<close>; \<open>db_heap\<close> is the heap the catalog is built with.\<close>

definition db_settings :: val where
  "db_settings =
     VStruct [SField ''DB'' [] (VStruct
       [SField ''Port'' ''flag=listen'' (VInt KInt 5), SField ''Host'' [] (VString ''h'')])]"

definition db_fields :: "field list" where
  "db_fields =
     [\<lparr>Base = nil_slice, Name = ''DB'', Value = \<lparr>slot = [0], settable = True\<rparr>,
        Config = empty_parameterConfig\<rparr>,
      \<lparr>Base = \<lparr>arr = 0, len = 1, cap = 1\<rparr>, Name = ''Port'', Value = \<lparr>slot = [0, 0], settable = True\<rparr>,
        Config = \<lparr>DefaultFileField = [], DefaultEnvName = [],
                   Flag = \<lparr>DefaultName = ''listen'', ShortName = []\<rparr>\<rparr>\<rparr>,
      \<lparr>Base = \<lparr>arr = 0, len = 1, cap = 1\<rparr>, Name = ''Host'', Value = \<lparr>slot = [0, 1], settable = True\<rparr>,
        Config = empty_parameterConfig\<rparr>]"

definition db_heap :: heap where
  "db_heap = [[''DB'']]"

text \<open>A settings object with a \<open>time.Time\<close> field and a pointer field that is nil.\<close>

definition start_settings :: val where
  "start_settings = VStruct [SField ''Start'' [] (VTime zero_time), SField ''Limit'' [] (VNil ''int'')]"

definition unknown_key_settings :: val where
  "unknown_key_settings = VStruct [SField ''Port'' ''port=1'' (VInt KInt 3000)]"

definition sibling_settings :: val where
  "sibling_settings =
     VStruct [SField ''A'' [] (VStruct [SField ''B'' [] (VStruct [SField ''C'' [] (VStruct
       [SField ''D'' [] (VStruct [SField ''X'' [] (VInt KInt 0)]),
        SField ''E'' [] (VStruct [SField ''Y'' [] (VInt KInt 0)])])])])]"


section \<open>Properties\<close>

subsection \<open>Evaluating the model\<close>

lemmas eval_defs =
  Collector_Get_def and_then_def Get_files_def Get_env_def Get_flags_def DefaultCollector_def
  readFiles_def unmarshal_def path_Ext_def strings_TrimSuffix_def
  getEnvAsMap_def set_field_from_string_def distinctEnvName_def
  readPFlags_def readFileMap_name_def set_field_from_file_def decode_into_def coerce_into_def
  ciMap_Get_def zero_time_def
  FullName_def go_append_def nil_slice_def growslice_cap_def slice_elems_def exported_def
  readParameterConfig_def readFlagConfig_def rune_count_def empty_parameterConfig_def empty_flag_def
  setFromString_def strconv_ParseInt_def strconv_ParseUint_def bits_of_def is_digit_def
  SetInt_def SetUint_def strconv_ParseBool_def stringSlice_UnmarshalText_def
  stringMap_UnmarshalText_def of_library_def
  strings_Split_def strings_SplitN2_def strings_TrimSpace_def is_space_def
  strings_ToUpper_def strings_ToLower_def to_upper_def to_lower_def is_lower_def is_upper_def
  Let_def

lemmas example_defs =
  example_lib_def example_os_def example_pflag_def example_parsed_def example_arg_def example_decode_def
  example_scalar_def example_time_def
  root_value_def port_settings_def port_field_def port_file_def

lemma port_settings_catalog:
  "getFieldsConfigsFromValue [] port_settings root_value nil_slice = Ok ([port_field], [])"
  by (simp add: eval_defs example_defs)

lemmas db_defs = db_settings_def db_fields_def db_heap_def

lemma db_settings_catalog:
  "getFieldsConfigsFromValue [] db_settings root_value nil_slice = Ok (db_fields, db_heap)"
  by (simp add: eval_defs example_defs db_defs)

lemma all_less_three: "(\<forall>j < Suc (Suc (Suc 0)). P j) \<longleftrightarrow> P 0 \<and> P (Suc 0) \<and> P (Suc (Suc 0))"
  by (auto simp: less_Suc_eq)

lemma db_flag_names:
  "flag_names db_fields (Flags DefaultCollector) db_heap
     = [([], ''db''), (''listen'', ''db-port''), ([], ''db-host'')]"
  by (simp add: flag_names_def eval_defs example_defs db_defs)

lemma db_flags_registered:
  "flags_registered db_fields (Flags DefaultCollector) db_heap
     = [([], []), (''db'', []), (''listen'', []), (''db-port'', []), (''db-host'', [])]"
  by (simp add: flags_registered_def eval_defs example_defs db_defs)

lemma db_env_names:
  "pass_names db_heap db_fields (Env_Separator (Env DefaultCollector)) = [''DB'', ''DB_Port'', ''DB_Host'']"
  by (simp add: eval_defs example_defs db_defs)

lemma db_length: "length db_fields = Suc (Suc (Suc 0))"
  by (simp add: db_fields_def)

lemma db_slot_port: "get_at db_settings (slot (Value (db_fields ! Suc 0))) = Some (VInt KInt 5)"
  by (simp add: db_defs)


subsection \<open>The settings object as a store\<close>

lemma get_at_set_at_same: "get_at r p = Some t \<Longrightarrow> get_at (set_at r p v) p = Some v"
  by (induction r p arbitrary: t rule: get_at.induct) (auto split: if_splits)

lemma set_at_set_at_same: "set_at (set_at r p v1) p v2 = set_at r p v2"
  by (induction r p v1 rule: set_at.induct) auto

lemma zero_of_type:
  "type_of a = type_of b \<Longrightarrow> zero_of a = zero_of b"
  "type_of_field f = type_of_field g \<Longrightarrow> zero_of_field f = zero_of_field g"
proof (induction a and f arbitrary: b and g)
  case (VStruct fs)
  then obtain gs where b: "b = VStruct gs" by (cases b) auto
  with VStruct.prems have m: "map type_of_field fs = map type_of_field gs" by simp
  then have "length fs = length gs" by (rule map_eq_imp_length_eq)
  then have "map zero_of_field fs = map zero_of_field gs"
    using m VStruct.IH
  proof (induction fs gs rule: list_induct2)
    case Nil
    then show ?case by simp
  next
    case (Cons x xs y ys)
    then show ?case by auto
  qed
  with b show ?case by simp
next
  case (SField n t v)
  then show ?case by (cases g) auto
qed (case_tac b; simp)+

lemma set_at_get_at: "get_at r p = Some t \<Longrightarrow> set_at r p t = r"
  by (induction r p arbitrary: t rule: get_at.induct) (auto split: if_splits simp: list_update_same_conv)

lemma get_at_set_at_other: "\<not> overlap q p \<Longrightarrow> get_at (set_at r q v) p = get_at r p"
proof (induction r q v arbitrary: p rule: set_at.induct)
  case (1 v new)
  then show ?case by (simp add: overlap_def)
next
  case (2 fs i q new)
  show ?case
  proof (cases p)
    case Nil
    with 2 show ?thesis by (simp add: overlap_def)
  next
    case (Cons j p')
    show ?thesis
    proof (cases "i < length fs")
      case True
      show ?thesis
      proof (cases "j = i")
        case True
        with 2 Cons \<open>i < length fs\<close> show ?thesis by (auto simp: overlap_def)
      next
        case False
        with Cons \<open>i < length fs\<close> show ?thesis by auto
      qed
    next
      case False
      with Cons show ?thesis by simp
    qed
  qed
next
  case (3 fs i q new)
  show ?case
  proof (cases p)
    case Nil
    with 3 show ?thesis by (simp add: overlap_def)
  next
    case (Cons j p')
    show ?thesis
    proof (cases "i < length fs")
      case True
      show ?thesis
      proof (cases "j = i")
        case True
        with 3 Cons \<open>i < length fs\<close> show ?thesis by (auto simp: overlap_def)
      next
        case False
        with Cons \<open>i < length fs\<close> show ?thesis by auto
      qed
    next
      case False
      with Cons show ?thesis by simp
    qed
  qed
qed simp_all

lemma overlap_refl: "overlap p p"
  by (simp add: overlap_def)

subsection \<open>The Value Coercer\<close>

text \<open>A successful coercion keeps the type of the target, and depends on the target
  through its type only.\<close>

lemma type_of_zero_of:
  "type_of (zero_of a) = type_of a"
  "type_of_field (zero_of_field f) = type_of_field f"
  by (induction a and f) (auto simp: map_idI)

lemma setFromString_switch_type:
  "setFromString_switch lib t s = Ok v \<Longrightarrow> type_of v = type_of t"
  by (cases "(lib, t, s)" rule: setFromString_switch.cases)
     (auto simp: of_library_def split: sum.splits outcome.splits option.splits)

lemma setFromString_type:
  "setFromString lib cs t s = Inr v \<Longrightarrow> type_of v = type_of t"
  by (auto simp: setFromString_def type_of_zero_of setFromString_switch_type
        split: if_splits outcome.splits)

lemma setFromString_switch_cong:
  "type_of a = type_of b \<Longrightarrow> setFromString_switch lib a s = setFromString_switch lib b s"
  by (cases "(lib, a, s)" rule: setFromString_switch.cases; cases b) auto

lemma setFromString_cong:
  "type_of a = type_of b \<Longrightarrow> setFromString lib cs a s = setFromString lib cs b s"
  by (simp add: setFromString_def zero_of_type(1)[of a b] setFromString_switch_cong[of a b])

text \<open>No error of an assignment is \<open>ErrNoFileFound\<close>.\<close>

lemma ParseUint_loop_error: "ParseUint_loop s bits n = Inl e \<Longrightarrow> e = ErrSyntax \<or> e = ErrRange"
  by (induction s arbitrary: n) (auto split: if_splits)

lemma ParseUint_error: "strconv_ParseUint s bits = Inl e \<Longrightarrow> e = ErrSyntax \<or> e = ErrRange"
  by (auto simp: strconv_ParseUint_def split: if_splits dest: ParseUint_loop_error)

lemma ParseInt_error: "strconv_ParseInt s bits = Inl e \<Longrightarrow> e = ErrSyntax \<or> e = ErrRange"
  by (auto simp: strconv_ParseInt_def Let_def split: list.splits sum.splits goerror.splits if_splits
        dest: ParseUint_error)

lemma stringMap_loop_no_error: "stringMap_loop xs m \<noteq> Err e"
  by (induction xs arbitrary: m) (auto split: list.splits)

lemma setFromString_switch_error:
  "setFromString_switch lib t s = Err e \<Longrightarrow> e \<noteq> ErrNoFileFound"
  by (cases "(lib, t, s)" rule: setFromString_switch.cases)
     (auto simp: of_library_def strconv_ParseBool_def stringMap_UnmarshalText_def stringMap_loop_no_error
        split: sum.splits outcome.splits option.splits if_splits
        dest: ParseInt_error ParseUint_error)

lemma setFromString_error: "setFromString lib cs t s = Inl e \<Longrightarrow> e \<noteq> ErrNoFileFound"
  by (auto simp: setFromString_def split: if_splits outcome.splits dest: setFromString_switch_error)

text \<open>
  C6. A string-to-string map is read from a text by splitting on \<open>,\<close> and each element
  once on \<open>=\<close>. The claim says an element without \<open>=\<close> is skipped. The code indexes
  the second piece of every element: on the text \<open>a=1,b\<close> the element \<open>b\<close> panics, the
  deferred \<open>recover\<close> of \<open>setFromString\<close> answers \<open>ErrUnsupportedType\<close>, and the target
  keeps the value it had (the pair \<open>a=1\<close> is not assigned).
\<close>

theorem setFromString_map_malformed_element:
  "setFromString lib True (VStringMap old) ''a=1,b'' = Inl ErrUnsupportedType"
  by (simp add: setFromString_def stringMap_UnmarshalText_def stringSlice_UnmarshalText_def
      strings_Split_def strings_SplitN2_def strings_TrimSpace_def is_space_def)

text \<open>
  C7. A signed integer field is parsed with \<open>strconv.ParseInt(value, 10, 0)\<close>: the bit
  size 0 is the size of \<open>int\<close>, not the width of the target, and \<open>SetInt\<close> then keeps the
  low bits. The text \<open>300\<close> for an \<open>int8\<close> field is accepted and stored as 44; the claim
  says it is reported as an error.
\<close>

theorem setFromString_int8_out_of_range:
  "setFromString lib True (VInt KInt8 old) ''300'' = Inr (VInt KInt8 44)"
  by (simp add: setFromString_def strconv_ParseInt_def strconv_ParseUint_def bits_of_def
      is_digit_def SetInt_def)

subsection \<open>The Field Catalog\<close>

text \<open>
  C4. Every field of the catalog should carry the path of its ancestors. The catalog
  builds the path of the children of a struct field with \<open>append(base, name)\<close> and keeps
  the result in every child. With room left in the backing array, two sibling struct
  fields get the same array and the second overwrites the name of the first: in
  \<open>A.B.C\<close> with the struct fields \<open>D\<close> (holding \<open>X\<close>) and \<open>E\<close> (holding \<open>Y\<close>), the entry
  of \<open>X\<close> has the base \<open>A, B, C, E\<close> once the catalog is built, and \<open>FullName\<close> called on
  it gives \<open>A.B.C.E.X\<close>, not \<open>A.B.C.D.X\<close>.
\<close>

theorem catalog_sibling_structs_share_base:
  "\<exists>fs h. getFieldsConfigsFromValue [] sibling_settings root_value nil_slice = Ok (fs, h)
     \<and> Name (fs ! 4) = ''X'' \<and> slot (Value (fs ! 4)) = [0, 0, 0, 0, 0]
     \<and> slice_elems h (Base (fs ! 4)) = [''A'', ''B'', ''C'', ''E'']
     \<and> fst (FullName h (fs ! 4) ''.'') = ''A.B.C.E.X''"
  by (simp add: sibling_settings_def eval_defs example_defs)

text \<open>\<open>FullName\<close> appends too, and writes the name of the field it is called on into the
  shared array. The readers call it on the fields in the order of the catalog, so the
  entry of \<open>D\<close> puts \<open>D\<close> back before the entry of \<open>X\<close> is read: on this object a pass in
  order returns the right names.\<close>

lemma sibling_settings_pass_in_order:
  "\<exists>fs h. getFieldsConfigsFromValue [] sibling_settings root_value nil_slice = Ok (fs, h)
     \<and> pass_names h fs ''.'' =
         [''A'', ''A.B'', ''A.B.C'', ''A.B.C.D'', ''A.B.C.D.X'', ''A.B.C.E'', ''A.B.C.E.Y'']"
  by (simp add: sibling_settings_def eval_defs example_defs)

text \<open>A \<open>time.Time\<close> is of kind struct: the catalog records the field and the three fields
  inside it, which are not exported and cannot be set. For a pointer field that is nil it
  records the invalid \<open>Value\<close>. An environment entry for one of these entries makes \<open>Get\<close>
  return \<open>ErrCantSet\<close>; a file value for the nil pointer makes it panic; a file value for
  the \<open>time.Time\<close> that is no text and does not decode is passed over.\<close>

lemma start_settings_catalog:
  "\<exists>fs h. getFieldsConfigsFromValue [] start_settings root_value nil_slice = Ok (fs, h)
     \<and> map Name fs = [''Start'', ''wall'', ''ext'', ''loc'', ''Limit'']
     \<and> map (\<lambda>f. slot (Value f)) fs = [[0], [0, 0], [0, 1], [0, 2, 0], [1, 0]]
     \<and> map (\<lambda>f. settable (Value f)) fs = [True, False, False, False, False]
     \<and> pass_names h fs ''_'' = [''Start'', ''Start_wall'', ''Start_ext'', ''Start_loc'', ''Limit'']"
  by (simp add: eval_defs example_defs start_settings_def)

lemma start_settings_env:
  "Collector_Get (example_lib []) (example_os [] [''START=2020-01-01T00:00:00Z''] []) [0, 1, 2, 3, 4]
     DefaultCollector (Pointer start_settings)
   = (Ok (), VStruct [SField ''Start'' [] (VTime
        [SField ''wall'' [] (VUint KUint64 0), SField ''ext'' [] (VInt KInt64 63713433600),
         SField ''loc'' [] (VNil ''time.Location'')]),
        SField ''Limit'' [] (VNil ''int'')])"
  by (simp add: eval_defs example_defs start_settings_def)

lemma start_settings_env_unexported:
  "Collector_Get (example_lib []) (example_os [] [''START_WALL=1''] []) [0, 1, 2, 3, 4]
     DefaultCollector (Pointer start_settings)
   = (Err ErrCantSet, start_settings)"
  by (simp add: eval_defs example_defs start_settings_def)

lemma start_settings_env_nil_pointer:
  "Collector_Get (example_lib []) (example_os [] [''LIMIT=1''] []) [0, 1, 2, 3, 4]
     DefaultCollector (Pointer start_settings)
   = (Err ErrCantSet, start_settings)"
  by (simp add: eval_defs example_defs start_settings_def)

lemma start_settings_file_nil_pointer:
  "Collector_Get (example_lib [(''bytes'', [(''limit'', FScalar ''1'')])])
     (example_os [(''config.yaml'', ''bytes'')] [] []) [0, 1, 2, 3, 4] DefaultCollector
     (Pointer start_settings)
   = (Panic ''reflect: call of reflect.Value.Type on zero Value'', start_settings)"
  by (simp add: eval_defs example_defs start_settings_def)

lemma start_settings_file_undecoded:
  "Collector_Get (example_lib [(''bytes'', [(''start'', FScalar ''1'')])])
     (example_os [(''config.yaml'', ''bytes'')] [] []) [0, 1, 2, 3, 4] DefaultCollector
     (Pointer start_settings)
   = (Ok (), start_settings)"
  by (simp add: eval_defs example_defs start_settings_def)

subsection \<open>The Annotation Parser\<close>

lemma first_rejected_not_Ok: "first_rejected tgs \<noteq> Some (Ok cfg)"
  by (induction tgs) (auto split: outcome.splits)

lemma first_rejected_append:
  "first_rejected (xs @ ys) = (case first_rejected xs of None \<Rightarrow> first_rejected ys | Some r \<Rightarrow> Some r)"
  by (induction xs) (auto split: outcome.splits)

lemma first_rejected_Some: "first_rejected tgs = Some r \<Longrightarrow> \<exists>a \<in> set tgs. readParameterConfig a = r"
  by (induction tgs) (auto split: outcome.splits)

lemma first_rejected_None:
  "first_rejected tgs = None \<Longrightarrow> a \<in> set tgs \<Longrightarrow> \<exists>cfg. readParameterConfig a = Ok cfg"
  by (induction tgs) (auto split: outcome.splits)

lemma Kind_Struct_not_nil: "Kind_Struct v \<Longrightarrow> \<not> is_nil v"
  by (cases v) auto

lemma annotations_not_struct: "\<not> Kind_Struct v \<Longrightarrow> annotations v = []"
  by (cases v) auto

text \<open>The catalog answers what \<open>readParameterConfig\<close> answers on the first annotation it
  does not accept, and is built when every annotation is accepted.\<close>

lemma catalog_first_rejected:
  "(case first_rejected (annotations v) of
      None \<Rightarrow> (\<exists>r. getFieldsConfigsFromValue h v rv base = Ok r) \<or> \<not> Kind_Struct v
    | Some (Ok cfg) \<Rightarrow> False
    | Some (Err e) \<Rightarrow> getFieldsConfigsFromValue h v rv base = Err e
    | Some (Panic m) \<Rightarrow> getFieldsConfigsFromValue h v rv base = Panic m)"
  and
  "(case first_rejected (concat (map annotations_field fs)) of
      None \<Rightarrow> (\<exists>r. getFields_loop h fs i rv base found = Ok r)
    | Some (Ok cfg) \<Rightarrow> False
    | Some (Err e) \<Rightarrow> getFields_loop h fs i rv base found = Err e
    | Some (Panic m) \<Rightarrow> getFields_loop h fs i rv base found = Panic m)"
proof (induction h v rv base and h fs i rv base found rule: getFieldsConfigsFromValue_getFields_loop.induct)
  case (1 h v rv base)
  then show ?case
    by (cases v) (auto split: option.splits outcome.splits)
next
  case (2 h i rv base found)
  then show ?case by simp
next
  case (3 h name tg v rest i rv base found)
  show ?case
  proof (cases "readParameterConfig tg")
    case (Ok cfg)
    show ?thesis
    proof (cases "Kind_Struct v")
      case True
      obtain newBase h1 where ap: "go_append h base name = (newBase, h1)"
        by (cases "go_append h base name") auto
      show ?thesis
        using 3(1)[OF Ok refl refl True ap[symmetric]] 3(2)[OF Ok refl refl True ap[symmetric]] Ok True ap
          Kind_Struct_not_nil[OF True]
        by (auto simp: first_rejected_append first_rejected_not_Ok
              simp del: getFieldsConfigsFromValue.simps split: option.splits outcome.splits)
    next
      case False
      then show ?thesis
        using 3(3)[OF Ok refl refl False] Ok
        by (auto simp: annotations_not_struct simp del: getFieldsConfigsFromValue.simps
              split: option.splits outcome.splits)
    qed
  qed auto
qed

lemma readFlagConfig_loop_no_panic: "readFlagConfig_loop fs fc \<noteq> Panic m"
  by (induction fs arbitrary: fc) auto

lemma readFlagConfig_no_panic: "readFlagConfig v \<noteq> Panic m"
  by (simp add: readFlagConfig_def readFlagConfig_loop_no_panic Let_def)

lemma loop_Ok_not_defective:
  "readParameterConfig_loop els cfg = Ok cfg' \<Longrightarrow> el \<in> set els \<Longrightarrow> \<not> defective el"
  by (induction els arbitrary: cfg)
     (auto simp: defective_def split: list.splits if_splits outcome.splits)

lemma loop_Panic_message:
  "readParameterConfig_loop els cfg = Panic m \<Longrightarrow>
     m \<in> {tag_format_message, tag_keys_message, ''invalid config struct tag format''}"
  by (induction els arbitrary: cfg)
     (auto simp: readFlagConfig_no_panic split: list.splits if_splits outcome.splits)

text \<open>
  C5, as amended. When an annotation of the settings struct has an element with an empty
  key, an empty value, an unrecognized key or no \<open>=\<close> at all, and no annotation has a
  malformed flag specification (which is returned as \<open>ErrMalformedFlagConfig\<close>), \<open>Get\<close>
  panics with one of the three messages of \<open>readParameterConfig\<close>. The panic is the same
  whatever the libraries, the files, the environment, the arguments and the collector
  are, and the settings object is unchanged: no source is read. It is a panic, not a
  returned error.
\<close>

theorem defective_annotation_panics:
  assumes tg: "tg \<in> set (annotations t)" and ne: "tg \<noteq> []"
    and el: "el \<in> set (strings_Split tg '','')" and bad: "defective el"
    and flags: "\<forall>a \<in> set (annotations t). \<forall>e. readParameterConfig a \<noteq> Err e"
  shows "\<exists>msg \<in> {tag_format_message, tag_keys_message, ''invalid config struct tag format''}.
           \<forall>lib sys order c. Collector_Get lib sys order c (Pointer t) = (Panic msg, t)"
proof -
  have notok: "readParameterConfig tg \<noteq> Ok cfg" for cfg
    using loop_Ok_not_defective[OF _ el] bad ne by (auto simp: readParameterConfig_def)
  obtain r where r: "first_rejected (annotations t) = Some r"
    using first_rejected_None[OF _ tg] notok by (cases "first_rejected (annotations t)") auto
  obtain a where a: "a \<in> set (annotations t)" "readParameterConfig a = r"
    using first_rejected_Some[OF r] by blast
  obtain m where m: "r = Panic m"
    using a flags first_rejected_not_Ok[of "annotations t"] r by (cases r) auto
  have msg: "m \<in> {tag_format_message, tag_keys_message, ''invalid config struct tag format''}"
    using a m loop_Panic_message[of _ empty_parameterConfig m]
    by (auto simp: readParameterConfig_def split: if_splits)
  have "getFieldsConfigsFromValue [] t root_value nil_slice = Panic m"
    using catalog_first_rejected(1)[where v=t and h="[]" and rv=root_value and base=nil_slice] r m
    by simp
  then have "Collector_Get lib sys order c (Pointer t) = (Panic m, t)" for lib sys order c
    by (simp add: Collector_Get_def)
  with msg show ?thesis by blast
qed

theorem defective_annotation_panics_witness:
  "''port=1'' \<in> set (annotations unknown_key_settings) \<and> defective ''port=1''
     \<and> (\<exists>msg. \<forall>lib sys order c.
           Collector_Get lib sys order c (Pointer unknown_key_settings) = (Panic msg, unknown_key_settings))"
proof -
  have 1: "''port=1'' \<in> set (annotations unknown_key_settings)"
    by (simp add: unknown_key_settings_def)
  have 2: "''port=1'' \<in> set (strings_Split ''port=1'' '','')"
    by (simp add: strings_Split_def)
  have 3: "defective ''port=1''"
    by (simp add: defective_def strings_SplitN2_def)
  have 4: "\<forall>a \<in> set (annotations unknown_key_settings). \<forall>e. readParameterConfig a \<noteq> Err e"
    by (simp add: unknown_key_settings_def readParameterConfig_def strings_Split_def strings_SplitN2_def)
  show ?thesis
    using defective_annotation_panics[OF 1 _ 2 3 4] 1 3 by auto
qed

text \<open>Against C5 as stated: the annotation \<open>port=1\<close> has an unrecognized key, and \<open>Get\<close>
  does not return an error, it panics.\<close>

theorem unknown_key_counterexample:
  "Collector_Get (example_lib []) (example_os [] [] []) [0] DefaultCollector (Pointer unknown_key_settings)
     = (Panic tag_keys_message, unknown_key_settings)"
  by (simp add: unknown_key_settings_def Collector_Get_def readParameterConfig_def
      strings_Split_def strings_SplitN2_def)

subsection \<open>The File Reader\<close>

text \<open>
  C3, as amended. The File Reader looks a field up by its \<open>DefaultFileField\<close> first and by
  its dotted full path second, and applies every name that is found, in that order: the
  loop has no exit after a hit. When both names are found and both values decode, the
  value under the dotted full path is applied over the one under \<open>DefaultFileField\<close> and
  is the one the field holds afterwards.
\<close>

theorem readFileMap_names_applies_every_hit:
  assumes n1: "ciMap_Get separator m n1 = Some x1"
    and n2: "ciMap_Get separator m n2 = Some x2"
    and target: "get_at root (slot (Value f)) = Some target"
    and canset: "settable (Value f)"
    and d1: "mapstructure_Decode lib x1 (zero_of target) = Some v1" and t1: "type_of v1 = type_of target"
    and d2: "mapstructure_Decode lib x2 (zero_of target) = Some v2" and t2: "type_of v2 = type_of target"
  shows "readFileMap_names lib f separator m [n1, n2] root = (Ok (), set_at root (slot (Value f)) v2)"
proof -
  have first: "readFileMap_name lib f separator m n1 root = (Ok (), set_at root (slot (Value f)) v1)"
    using n1 target canset d1 t1
    by (simp add: readFileMap_name_def set_field_from_file_def decode_into_def)
  have z: "zero_of v1 = zero_of target"
    using t1 by (rule zero_of_type(1))
  have second: "readFileMap_name lib f separator m n2 (set_at root (slot (Value f)) v1)
      = (Ok (), set_at root (slot (Value f)) v2)"
    using n2 canset d2 t1 t2 z get_at_set_at_same[OF target]
    by (simp add: readFileMap_name_def set_field_from_file_def decode_into_def set_at_set_at_same)
  show ?thesis
    by (simp add: first second)
qed

theorem readFileMap_names_applies_every_hit_witness:
  "ciMap_Get ''.'' port_file ''p'' = Some (FScalar ''1'')
   \<and> ciMap_Get ''.'' port_file ''Port'' = Some (FScalar ''2'')
   \<and> readFileMap_names (example_lib []) port_field ''.'' port_file [''p'', ''Port''] port_settings
       = (Ok (), VStruct [SField ''Port'' ''env=LISTEN,file=p,flag=l listen'' (VInt KInt 2)])"
proof -
  have 1: "ciMap_Get ''.'' port_file ''p'' = Some (FScalar ''1'')"
    by (simp add: eval_defs example_defs)
  have 2: "ciMap_Get ''.'' port_file ''Port'' = Some (FScalar ''2'')"
    by (simp add: eval_defs example_defs)
  have 3: "get_at port_settings (slot (Value port_field)) = Some (VInt KInt 3000)"
    by (simp add: example_defs)
  have 4: "settable (Value port_field)"
    by (simp add: example_defs)
  have 5: "mapstructure_Decode (example_lib []) (FScalar ''1'') (zero_of (VInt KInt 3000)) = Some (VInt KInt 1)"
    by (simp add: eval_defs example_defs)
  have 6: "mapstructure_Decode (example_lib []) (FScalar ''2'') (zero_of (VInt KInt 3000)) = Some (VInt KInt 2)"
    by (simp add: eval_defs example_defs)
  have "readFileMap_names (example_lib []) port_field ''.'' port_file [''p'', ''Port''] port_settings
      = (Ok (), set_at port_settings (slot (Value port_field)) (VInt KInt 2))"
    using readFileMap_names_applies_every_hit[OF 1 2 3 4 5 _ 6] by simp
  then show ?thesis
    using 1 2 by (simp add: example_defs)
qed

text \<open>Against C3 as stated: the file has \<open>p: 1\<close> (the \<open>DefaultFileField\<close> of \<open>Port\<close>) and
  \<open>port: 2\<close> (its full path); the field ends with 2.\<close>

theorem file_override_counterexample:
  "Collector_Get (example_lib [(''bytes'', port_file)])
     (example_os [(''config.yaml'', ''bytes'')] [] []) [0] DefaultCollector (Pointer port_settings)
   = (Ok (), VStruct [SField ''Port'' ''env=LISTEN,file=p,flag=l listen'' (VInt KInt 2)])"
  by (simp add: eval_defs example_defs)

subsection \<open>Sequences of assignments\<close>

lemma run_assignments_append:
  "run_assignments lib (xs @ ys) root =
     (case run_assignments lib xs root of (Ok u, root1) \<Rightarrow> run_assignments lib ys root1 | (r, root1) \<Rightarrow> (r, root1))"
  by (induction xs arbitrary: root) (auto split: prod.splits outcome.splits)

lemma run_target_append:
  "run_target lib (xs @ ys) t =
     (case run_target lib xs t of (Ok u, t1) \<Rightarrow> run_target lib ys t1 | (r, t1) \<Rightarrow> (r, t1))"
  by (induction xs arbitrary: t) (auto split: prod.splits outcome.splits)

lemma apply_assignment_frame:
  assumes "apply_assignment lib w root = (r, root')" and "\<not> overlap (assigned_slot w) p"
  shows "get_at root' p = get_at root p"
  using assms
  by (cases w)
     (auto simp: assigned_slot_def set_field_from_string_def set_field_from_file_def
        get_at_set_at_other split: option.splits prod.splits)

lemma apply_assignment_own:
  assumes "assigned_slot w = p" and "get_at root p = Some t"
  shows "apply_assignment lib w root = (fst (assign_target lib w t), set_at root p (snd (assign_target lib w t)))"
  using assms
  by (cases w)
     (auto simp: assigned_slot_def set_field_from_string_def set_field_from_file_def split: prod.splits)

lemma apply_assignment_error: "apply_assignment lib w root = (Err e, root') \<Longrightarrow> e \<noteq> ErrNoFileFound"
  by (cases w)
     (auto simp: set_field_from_string_def set_field_from_file_def coerce_into_def decode_into_def
        split: option.splits prod.splits sum.splits fval.splits if_splits dest: setFromString_error)

lemma run_assignments_error: "run_assignments lib ws root = (Err e, root') \<Longrightarrow> e \<noteq> ErrNoFileFound"
  by (induction ws arbitrary: root)
     (auto split: prod.splits outcome.splits dest: apply_assignment_error)

text \<open>Running a sequence in which a slot is isolated: the slot ends with what its own
  assignments make of its value, and is untouched when it has none.\<close>

lemma run_assignments_slot:
  assumes "run_assignments lib ws root = (r, root')" and "isolated p ws" and "get_at root p = Some t"
  shows "\<exists>t'. get_at root' p = Some t'
           \<and> (r = Ok () \<longrightarrow> run_target lib (filter (\<lambda>w. assigned_slot w = p) ws) t = (Ok (), t'))
           \<and> (filter (\<lambda>w. assigned_slot w = p) ws = [] \<longrightarrow> t' = t)"
  using assms
proof (induction ws arbitrary: root t)
  case Nil
  then show ?case by auto
next
  case (Cons w ws)
  obtain r1 root1 where step: "apply_assignment lib w root = (r1, root1)"
    by (cases "apply_assignment lib w root") auto
  have iso: "isolated p ws" and w: "assigned_slot w = p \<or> \<not> overlap (assigned_slot w) p"
    using Cons.prems(2) by (auto simp: isolated_def)
  show ?case
  proof (cases "assigned_slot w = p")
    case True
    have eq: "r1 = fst (assign_target lib w t)" "root1 = set_at root p (snd (assign_target lib w t))"
      using apply_assignment_own[OF True Cons.prems(3), of lib] step by auto
    have g1: "get_at root1 p = Some (snd (assign_target lib w t))"
      using eq get_at_set_at_same[OF Cons.prems(3)] by simp
    show ?thesis
    proof (cases r1)
      case (Ok u)
      then have rest: "run_assignments lib ws root1 = (r, root')"
        using Cons.prems(1) step by simp
      from Cons.IH[OF rest iso g1] True Ok eq show ?thesis
        by (cases "assign_target lib w t") auto
    next
      case (Err e)
      then show ?thesis using Cons.prems(1) step g1 True by auto
    next
      case (Panic m)
      then show ?thesis using Cons.prems(1) step g1 True by auto
    qed
  next
    case False
    then have g1: "get_at root1 p = Some t"
      using apply_assignment_frame[OF step] w Cons.prems(3) by auto
    show ?thesis
    proof (cases r1)
      case (Ok u)
      then have rest: "run_assignments lib ws root1 = (r, root')"
        using Cons.prems(1) step by simp
      from Cons.IH[OF rest iso g1] False show ?thesis by auto
    next
      case (Err e)
      then show ?thesis using Cons.prems(1) step g1 False by auto
    next
      case (Panic m)
      then show ?thesis using Cons.prems(1) step g1 False by auto
    qed
  qed
qed

lemma assign_target_type: "assign_target lib w t = (Ok (), t') \<Longrightarrow> type_of t' = type_of t"
  by (cases w)
     (auto simp: coerce_into_def decode_into_def
        split: sum.splits option.splits fval.splits if_splits dest: setFromString_type)

lemma run_target_type: "run_target lib ws t = (Ok (), t') \<Longrightarrow> type_of t' = type_of t"
proof (induction ws arbitrary: t)
  case Nil
  then show ?case by simp
next
  case (Cons w ws)
  obtain r t1 where step: "assign_target lib w t = (r, t1)"
    by (cases "assign_target lib w t") auto
  with Cons.prems have r: "r = Ok ()" and rest: "run_target lib ws t1 = (Ok (), t')"
    by (cases r; simp)+
  from Cons.IH[OF rest] assign_target_type[OF step[unfolded r]] show ?case by simp
qed

lemma run_target_last_string:
  assumes "run_target lib (ws @ [FromString f s]) t = (Ok (), v)"
  shows "setFromString lib (settable (Value f)) t s = Inr v"
proof -
  obtain r t1 where pre: "run_target lib ws t = (r, t1)"
    by (cases "run_target lib ws t") auto
  with assms have r: "r = Ok ()" and last: "coerce_into lib (settable (Value f)) t1 s = (Ok (), v)"
    by (cases r; simp add: run_target_append split: prod.splits outcome.splits)+
  have "type_of t1 = type_of t"
    using pre r run_target_type by simp
  then have "setFromString lib (settable (Value f)) t1 s = setFromString lib (settable (Value f)) t s"
    by (rule setFromString_cong)
  with last show ?thesis
    by (auto simp: coerce_into_def split: sum.splits)
qed

lemma run_target_last_file:
  assumes "run_target lib (ws @ [FromFile f x]) t = (Ok (), v)"
    and "mapstructure_Decode lib x (zero_of t) = Some d"
  shows "v = d"
proof -
  obtain r t1 where pre: "run_target lib ws t = (r, t1)"
    by (cases "run_target lib ws t") auto
  with assms have r: "r = Ok ()" and last: "decode_into lib (settable (Value f)) t1 x = (Ok (), v)"
    by (cases r; simp add: run_target_append split: prod.splits outcome.splits)+
  have "type_of t1 = type_of t"
    using pre r run_target_type by simp
  then have "zero_of t1 = zero_of t"
    by (rule zero_of_type(1))
  with last assms(2) show ?thesis
    by (auto simp: decode_into_def split: if_splits)
qed

lemma last_string:
  assumes "xs \<noteq> []" and "\<forall>w \<in> set xs. is_FromString w"
  shows "xs = butlast xs @ [FromString (assigned_field (last xs)) (assigned_text (last xs))]"
proof -
  have "is_FromString (last xs)" using assms by simp
  then have "last xs = FromString (assigned_field (last xs)) (assigned_text (last xs))"
    by (cases "last xs") auto
  with assms(1) show ?thesis
    by (metis append_butlast_last_id)
qed

lemma filter_concat_single:
  assumes "distinct order" and "i \<in> set order" and "\<And>j. j \<in> set order \<Longrightarrow> j \<noteq> i \<Longrightarrow> filter P (g j) = []"
  shows "filter P (concat (map g order)) = filter P (g i)"
  using assms
proof (induction order)
  case Nil
  then show ?case by simp
next
  case (Cons j order)
  show ?case
  proof (cases "j = i")
    case True
    then have "i \<notin> set order" using Cons.prems(1) by simp
    then have "filter P (concat (map g order)) = []"
      using Cons.prems(3) by (induction order) auto
    with True show ?thesis by simp
  next
    case False
    then show ?thesis using Cons by auto
  qed
qed

lemma concat_map2_index:
  assumes "length ys = length xs"
  shows "concat (map2 f xs ys) = concat (map (\<lambda>i. f (xs ! i) (ys ! i)) [0..<length xs])"
proof -
  have "map2 f xs ys = map (\<lambda>i. f (xs ! i) (ys ! i)) [0..<length xs]"
    using assms by (intro nth_equalityI) auto
  then show ?thesis by simp
qed

subsection \<open>The readers run their assignments\<close>

lemma length_pass_names [simp]: "length (pass_names h fs separator) = length fs"
  by (induction fs arbitrary: h) (auto split: prod.splits)

lemma readPFlags_infos_run:
  "readPFlags_infos lib f parsed names root = run_assignments lib (flag_assignments_field f parsed names) root"
  by (induction names arbitrary: root)
     (auto simp: flag_assignments_field_def split: prod.splits outcome.splits)

lemma readPFlags_fields_run:
  "readPFlags_fields lib fs infos parsed order root = run_assignments lib (flag_assignments fs infos parsed order) root"
proof (induction order arbitrary: root)
  case Nil
  then show ?case by (simp add: flag_assignments_def)
next
  case (Cons i order)
  have unfold: "flag_assignments fs infos parsed (i # order) =
      (if i < length fs \<and> i < length infos
       then flag_assignments_field (fs ! i) parsed [fst (infos ! i), snd (infos ! i)] else [])
      @ flag_assignments fs infos parsed order"
    by (simp add: flag_assignments_def)
  show ?case
    unfolding unfold
    by (simp add: run_assignments_append readPFlags_infos_run Cons.IH del: readPFlags_infos.simps
          split: prod.splits outcome.splits)
qed

lemma readPFlags_register_infos:
  "snd (readPFlags_register fs config h flagSet cache infos) =
     (infos @ flag_names fs config h, pass_heap h fs (Flags_Separator config))"
proof (induction fs arbitrary: h flagSet cache infos)
  case Nil
  then show ?case by (simp add: flag_names_def)
next
  case (Cons f fs)
  obtain n h1 where fn: "FullName h f (Flags_Separator config) = (n, h1)"
    by (cases "FullName h f (Flags_Separator config)") auto
  show ?case
    using fn by (simp add: Cons.IH flag_names_def Let_def)
qed

lemma readPFlags_unfold:
  assumes "pflag_Parse lib (flags_registered fs config h) args = Ok parsed"
  shows "readPFlags lib fs config args order (h, root) =
     (fst (run_assignments lib (flag_assignments fs (flag_names fs config h) parsed order) root),
      (pass_heap h fs (Flags_Separator config),
       snd (run_assignments lib (flag_assignments fs (flag_names fs config h) parsed order) root)))"
proof -
  have reg: "readPFlags_register fs config h [] [] [] =
     (flags_registered fs config h, flag_names fs config h, pass_heap h fs (Flags_Separator config))"
    using readPFlags_register_infos[of fs config h "[]" "[]" "[]"]
    by (cases "readPFlags_register fs config h [] [] []") (simp add: flags_registered_def)
  with assms show ?thesis
    by (simp add: readPFlags_def readPFlags_fields_run split: prod.splits)
qed

lemma readEnv_names_run:
  "readEnv_names lib f vars names root = run_assignments lib (env_assignments_field f vars names) root"
  by (induction names arbitrary: root)
     (auto simp: env_assignments_field_def split: option.splits prod.splits outcome.splits)

lemma readEnv_run:
  "fst (readEnv lib fs config vars (h, root)) = fst (run_assignments lib (env_assignments fs config vars h) root)
   \<and> snd (snd (readEnv lib fs config vars (h, root))) = snd (run_assignments lib (env_assignments fs config vars h) root)
   \<and> (fst (readEnv lib fs config vars (h, root)) = Ok () \<longrightarrow>
        fst (snd (readEnv lib fs config vars (h, root))) = pass_heap h fs (Env_Separator config))"
proof (induction fs arbitrary: h root)
  case Nil
  then show ?case by (simp add: env_assignments_def)
next
  case (Cons f fs)
  obtain n h1 where fn: "FullName h f (Env_Separator config) = (n, h1)"
    by (cases "FullName h f (Env_Separator config)") auto
  have unfold: "env_assignments (f # fs) config vars h =
      env_assignments_field f vars [DefaultEnvName (Config f), distinctEnvName config n]
      @ env_assignments fs config vars h1"
    using fn by (simp add: env_assignments_def)
  show ?case
    unfolding unfold
    using fn Cons.IH[of h1]
    by (simp add: run_assignments_append readEnv_names_run del: readEnv_names.simps
          split: prod.splits outcome.splits)
qed

lemma readFileMap_names_run:
  "readFileMap_names lib f separator m names root =
     run_assignments lib (file_assignments_field f separator m names) root"
  by (induction names arbitrary: root)
     (auto simp: file_assignments_field_def readFileMap_name_def split: option.splits prod.splits outcome.splits)

lemma readFileMap_run:
  "fst (readFileMap lib fs separator m (h, root)) = fst (run_assignments lib (file_assignments fs separator m h) root)
   \<and> snd (snd (readFileMap lib fs separator m (h, root))) = snd (run_assignments lib (file_assignments fs separator m h) root)
   \<and> (fst (readFileMap lib fs separator m (h, root)) = Ok () \<longrightarrow>
        fst (snd (readFileMap lib fs separator m (h, root))) = pass_heap h fs separator)"
proof (induction fs arbitrary: h root)
  case Nil
  then show ?case by (simp add: file_assignments_def)
next
  case (Cons f fs)
  obtain n h1 where fn: "FullName h f separator = (n, h1)"
    by (cases "FullName h f separator") auto
  have unfold: "file_assignments (f # fs) separator m h =
      file_assignments_field f separator m [DefaultFileField (Config f), n]
      @ file_assignments fs separator m h1"
    using fn by (simp add: file_assignments_def)
  show ?case
    unfolding unfold
    using fn Cons.IH[of h1]
    by (simp add: run_assignments_append readFileMap_names_run del: readFileMap_names.simps
          split: prod.splits outcome.splits)
qed

lemma files_assignments_append:
  "files_assignments fs separator (xs @ ys) h =
     files_assignments fs separator xs h @ files_assignments fs separator ys (files_heap fs separator xs h)"
  by (induction xs arbitrary: h) auto

lemma files_heap_append:
  "files_heap fs separator (xs @ ys) h = files_heap fs separator ys (files_heap fs separator xs h)"
  by (induction xs arbitrary: h) auto

lemma readFiles_infos_run:
  assumes "readFiles_infos lib sys fs config loc names found (h, root) = ((Ok (), found'), (h', root'))"
  shows "run_assignments lib (files_assignments fs (Files_Separator config) (decoded_infos lib sys config loc names) h) root
           = (Ok (), root')
         \<and> h' = files_heap fs (Files_Separator config) (decoded_infos lib sys config loc names) h"
  using assms
proof (induction names arbitrary: found h root)
  case Nil
  then show ?case by simp
next
  case (Cons name names)
  show ?case
  proof (cases "strings_TrimSuffix name (path_Ext name) \<noteq> BaseName config")
    case True
    with Cons show ?thesis by simp
  next
    case False
    then obtain bytes where rf: "ioutil_ReadFile sys loc name = Some bytes"
      using Cons.prems by (cases "ioutil_ReadFile sys loc name") auto
    then obtain m where um: "unmarshal lib bytes = Ok m"
      using Cons.prems False by (cases "unmarshal lib bytes") auto
    obtain r1 h1 root1 where fm: "readFileMap lib fs (Files_Separator config) m (h, root) = (r1, (h1, root1))"
      by (cases "readFileMap lib fs (Files_Separator config) m (h, root)") auto
    have r1: "r1 = Ok ()"
      using Cons.prems False rf um fm by (cases r1) auto
    have rest: "readFiles_infos lib sys fs config loc names True (h1, root1) = ((Ok (), found'), (h', root'))"
      using Cons.prems False rf um fm r1 by simp
    have step: "run_assignments lib (file_assignments fs (Files_Separator config) m h) root = (Ok (), root1)"
      and h1: "h1 = pass_heap h fs (Files_Separator config)"
      using readFileMap_run[of lib fs "Files_Separator config" m h root] fm r1
      by (auto simp: prod_eq_iff)
    show ?thesis
      using Cons.IH[OF rest] False rf um step h1
      by (simp add: run_assignments_append)
  qed
qed

lemma readFiles_infos_error:
  "readFiles_infos lib sys fs config loc names found st = ((Err e, found'), st') \<Longrightarrow> e \<noteq> ErrNoFileFound"
proof (induction names arbitrary: found st)
  case Nil
  then show ?case by simp
next
  case (Cons name names)
  obtain h root where st: "st = (h, root)" by (cases st)
  show ?case
    using Cons.prems Cons.IH readFileMap_run[of lib fs "Files_Separator config" _ h root]
      run_assignments_error[of lib _ root e]
    unfolding st
    by (auto simp: unmarshal_def prod_eq_iff split: if_splits option.splits outcome.splits prod.splits)
qed

lemma readFiles_locations_run:
  assumes "readFiles_locations lib sys fs config locs found (h, root) = (r, (h', root'))"
    and "r = Ok () \<or> r = Err ErrNoFileFound"
  shows "run_assignments lib (files_assignments fs (Files_Separator config) (decoded_files lib sys config locs) h) root
           = (Ok (), root')
         \<and> h' = files_heap fs (Files_Separator config) (decoded_files lib sys config locs) h"
  using assms
proof (induction locs arbitrary: found h root)
  case Nil
  then show ?case by (auto split: if_splits)
next
  case (Cons loc locs)
  show ?case
  proof (cases "ioutil_ReadDir sys loc")
    case None
    with Cons show ?thesis by simp
  next
    case (Some infos)
    obtain r1 f1 h1 root1 where ri: "readFiles_infos lib sys fs config loc infos found (h, root) = ((r1, f1), (h1, root1))"
      by (cases "readFiles_infos lib sys fs config loc infos found (h, root)") auto
    have r1: "r1 = Ok ()"
    proof (cases r1)
      case (Err e)
      then have "r = Err e" using Cons.prems(1) Some ri by simp
      moreover have "e \<noteq> ErrNoFileFound"
        using readFiles_infos_error ri Err by blast
      ultimately show ?thesis using Cons.prems(2) by simp
    qed (use Cons.prems Some ri in auto)
    then have rest: "readFiles_locations lib sys fs config locs f1 (h1, root1) = (r, (h', root'))"
      using Cons.prems(1) Some ri by simp
    show ?thesis
      using Cons.IH[OF rest Cons.prems(2)] readFiles_infos_run[OF ri[unfolded r1]] Some
      by (simp add: run_assignments_append files_assignments_append files_heap_append)
  qed
qed

lemma Get_files_run:
  assumes "Get_files lib sys c fs (h0, t) = (Ok (), (h1, t1))"
  shows "run_assignments lib (files_supplied lib sys c fs h0) t = (Ok (), t1)
         \<and> h1 = heap_after_files lib sys c fs h0"
proof (cases "Files_Disabled (Files c)")
  case True
  with assms show ?thesis
    by (simp add: Get_files_def files_supplied_def heap_after_files_def Get_decoded_files_def)
next
  case False
  obtain r h' t' where rf: "readFiles lib sys fs (Files c) (h0, t) = (r, (h', t'))"
    by (cases "readFiles lib sys fs (Files c) (h0, t)") auto
  have r: "r = Ok () \<or> r = Err ErrNoFileFound" and eq: "h' = h1" "t' = t1"
    using assms False rf by (cases r; auto simp: Get_files_def split: if_splits)+
  show ?thesis
    using readFiles_locations_run[OF rf[unfolded readFiles_def] r] False eq
    by (simp add: files_supplied_def heap_after_files_def Get_decoded_files_def)
qed

lemma Get_env_run:
  assumes "Get_env lib sys c fs (heap_after_files lib sys c fs h0, t1) = (Ok (), (h2, t2))"
  shows "run_assignments lib (env_supplied lib sys c fs h0) t1 = (Ok (), t2)
         \<and> h2 = heap_after_env lib sys c fs h0"
proof (cases "Env_Disabled (Env c)")
  case True
  with assms show ?thesis
    by (simp add: Get_env_def env_supplied_def heap_after_env_def)
next
  case False
  then obtain vars where vars: "getEnvAsMap sys = Ok vars"
    using assms by (cases "getEnvAsMap sys") (auto simp: Get_env_def)
  show ?thesis
    using assms False vars readEnv_run[of lib fs "Env c" vars "heap_after_files lib sys c fs h0" t1]
    by (auto simp: Get_env_def env_supplied_def heap_after_env_def prod_eq_iff)
qed

lemma Get_flags_run:
  assumes "Get_flags lib sys order c fs (heap_after_env lib sys c fs h0, t2) = (Ok (), (h3, t3))"
  shows "run_assignments lib (flags_supplied lib sys order c fs h0) t2 = (Ok (), t3)"
proof (cases "Flags_Disabled (Flags c)")
  case True
  with assms show ?thesis
    by (simp add: Get_flags_def flags_supplied_def)
next
  case False
  let ?h = "heap_after_env lib sys c fs h0"
  obtain parsed where parsed: "pflag_Parse lib (flags_registered fs (Flags c) ?h) (Args sys) = Ok parsed"
  proof (cases "pflag_Parse lib (flags_registered fs (Flags c) ?h) (Args sys)")
    case (Ok parsed)
    then show ?thesis using that by simp
  next
    case (Err e)
    have "readPFlags_register fs (Flags c) ?h [] [] [] =
        (flags_registered fs (Flags c) ?h, snd (readPFlags_register fs (Flags c) ?h [] [] []))"
      by (simp add: flags_registered_def)
    with Err assms False show ?thesis
      by (auto simp: Get_flags_def readPFlags_def split: prod.splits)
  next
    case (Panic m)
    have "readPFlags_register fs (Flags c) ?h [] [] [] =
        (flags_registered fs (Flags c) ?h, snd (readPFlags_register fs (Flags c) ?h [] [] []))"
      by (simp add: flags_registered_def)
    with Panic assms False show ?thesis
      by (auto simp: Get_flags_def readPFlags_def split: prod.splits)
  qed
  show ?thesis
    using assms False parsed readPFlags_unfold[OF parsed, of order t2]
    by (auto simp: Get_flags_def flags_supplied_def prod_eq_iff)
qed

lemma Get_run:
  assumes cat: "getFieldsConfigsFromValue [] t root_value nil_slice = Ok (fs, h0)"
    and get: "Collector_Get lib sys order c (Pointer t) = (Ok (), t')"
  shows "run_assignments lib
           (files_supplied lib sys c fs h0 @ env_supplied lib sys c fs h0 @ flags_supplied lib sys order c fs h0) t
         = (Ok (), t')"
proof -
  obtain r1 h1 t1 where s1: "Get_files lib sys c fs (h0, t) = (r1, (h1, t1))"
    by (cases "Get_files lib sys c fs (h0, t)") auto
  have r1: "r1 = Ok ()"
    using get cat s1 by (cases r1) (auto simp: Collector_Get_def and_then_def split: prod.splits)
  obtain r2 h2 t2 where s2: "Get_env lib sys c fs (h1, t1) = (r2, (h2, t2))"
    by (cases "Get_env lib sys c fs (h1, t1)") auto
  have r2: "r2 = Ok ()"
    using get cat s1 r1 s2 by (cases r2) (auto simp: Collector_Get_def and_then_def split: prod.splits)
  obtain r3 h3 t3 where s3: "Get_flags lib sys order c fs (h2, t2) = (r3, (h3, t3))"
    by (cases "Get_flags lib sys order c fs (h2, t2)") auto
  have r3: "r3 = Ok ()" and t3: "t3 = t'"
    using get cat s1 r1 s2 r2 s3 by (auto simp: Collector_Get_def and_then_def split: prod.splits)
  note f = Get_files_run[OF s1[unfolded r1]]
  note e = Get_env_run[OF s2[unfolded r2 f[THEN conjunct2]]]
  note l = Get_flags_run[OF s3[unfolded r3 e[THEN conjunct2]]]
  show ?thesis
    using f e l t3 by (simp add: run_assignments_append)
qed

lemma flag_assignments_strings: "\<forall>w \<in> set (flag_assignments fs infos parsed order). is_FromString w"
  by (auto simp: flag_assignments_def flag_assignments_field_def split: if_splits)

lemma env_assignments_strings: "\<forall>w \<in> set (env_assignments fs config vars h). is_FromString w"
  by (auto simp: env_assignments_def env_assignments_field_def split: option.splits dest!: set_zip_leftD)

lemma flags_supplied_strings: "\<forall>w \<in> set (flags_supplied lib sys order c fs h0). is_FromString w"
  using flag_assignments_strings by (auto simp: flags_supplied_def split: outcome.splits)

lemma env_supplied_strings: "\<forall>w \<in> set (env_supplied lib sys c fs h0). is_FromString w"
  using env_assignments_strings by (auto simp: env_supplied_def split: outcome.splits)

subsection \<open>The Env Reader\<close>

lemma to_upper_idem: "to_upper (to_upper c) = to_upper c"
  by (cases c) (auto simp: to_upper_def is_lower_def)

lemma ToUpper_idem: "strings_ToUpper (strings_ToUpper s) = strings_ToUpper s"
  by (simp add: strings_ToUpper_def to_upper_idem)

lemma readEnv_names_restrict:
  "readEnv_names lib f (vars |` {k. strings_ToUpper k = k}) names root = readEnv_names lib f vars names root"
  by (induction names arbitrary: root)
     (auto simp: restrict_map_def ToUpper_idem split: option.splits prod.splits outcome.splits)

lemma readEnv_names_upper:
  "readEnv_names lib f vars (map strings_ToUpper names) root = readEnv_names lib f vars names root"
  by (induction names arbitrary: root)
     (auto simp: ToUpper_idem split: option.splits prod.splits outcome.splits)

text \<open>The names of one field and what their entries make of its slot, when no entry
  matches a field with an overlapping slot.\<close>

lemma env_stage_slot:
  assumes run: "readEnv lib fs config vars (h, root) = (r, (h', root'))"
    and i: "i < length fs"
    and alone: "\<forall>j < length fs. j \<noteq> i \<and> overlap (slot (Value (fs ! j))) (slot (Value (fs ! i)))
        \<longrightarrow> vars (strings_ToUpper (DefaultEnvName (Config (fs ! j)))) = None
            \<and> vars (strings_ToUpper (distinctEnvName config (pass_names h fs (Env_Separator config) ! j))) = None"
    and target: "get_at root (slot (Value (fs ! i))) = Some target"
  shows "\<exists>t'. get_at root' (slot (Value (fs ! i))) = Some t'
     \<and> (r = Ok () \<longrightarrow>
          run_target lib (env_assignments_field (fs ! i) vars
              [DefaultEnvName (Config (fs ! i)),
               distinctEnvName config (pass_names h fs (Env_Separator config) ! i)]) target = (Ok (), t'))
     \<and> (env_assignments_field (fs ! i) vars
              [DefaultEnvName (Config (fs ! i)),
               distinctEnvName config (pass_names h fs (Env_Separator config) ! i)] = [] \<longrightarrow> t' = target)"
proof -
  let ?p = "slot (Value (fs ! i))"
  let ?names = "pass_names h fs (Env_Separator config)"
  let ?g = "\<lambda>j. env_assignments_field (fs ! j) vars
                 [DefaultEnvName (Config (fs ! j)), distinctEnvName config (?names ! j)]"
  let ?ws = "env_assignments fs config vars h"
  have ws: "?ws = concat (map ?g [0..<length fs])"
    unfolding env_assignments_def by (rule concat_map2_index) simp
  have slots: "w \<in> set (?g j) \<Longrightarrow> assigned_slot w = slot (Value (fs ! j))" for w j
    by (auto simp: env_assignments_field_def assigned_slot_def split: option.splits)
  have none: "?g j = []" if "j < length fs" "j \<noteq> i" "overlap (slot (Value (fs ! j))) ?p" for j
    using alone that by (auto simp: env_assignments_field_def)
  have run': "run_assignments lib ?ws root = (r, root')"
    using run readEnv_run[of lib fs config vars h root] by (simp add: prod_eq_iff)
  have iso: "isolated ?p ?ws"
    unfolding isolated_def ws
  proof
    fix w assume "w \<in> set (concat (map ?g [0..<length fs]))"
    then obtain j where j: "j < length fs" "w \<in> set (?g j)" by auto
    show "assigned_slot w = ?p \<or> \<not> overlap (assigned_slot w) ?p"
    proof (cases "j = i")
      case True
      with slots[OF j(2)] show ?thesis by simp
    next
      case False
      with none[OF j(1)] j(2) slots[OF j(2)] show ?thesis by auto
    qed
  qed
  have own: "filter (\<lambda>w. assigned_slot w = ?p) ?ws = ?g i"
  proof -
    have "filter (\<lambda>w. assigned_slot w = ?p) (concat (map ?g [0..<length fs]))
        = filter (\<lambda>w. assigned_slot w = ?p) (?g i)"
    proof (rule filter_concat_single)
      show "distinct [0..<length fs]" by simp
      show "i \<in> set [0..<length fs]" using i by simp
    next
      fix j assume j: "j \<in> set [0..<length fs]" "j \<noteq> i"
      then have jl: "j < length fs" by simp
      show "filter (\<lambda>w. assigned_slot w = ?p) (?g j) = []"
      proof (cases "overlap (slot (Value (fs ! j))) ?p")
        case True
        with none[OF jl j(2)] show ?thesis by simp
      next
        case False
        then have "slot (Value (fs ! j)) \<noteq> ?p" using overlap_refl by metis
        with slots[of _ j] show ?thesis by (auto simp: filter_empty_conv)
      qed
    qed
    moreover have "filter (\<lambda>w. assigned_slot w = ?p) (?g i) = ?g i"
      using slots[of _ i] by (auto simp: filter_id_conv)
    ultimately show ?thesis by (simp add: ws)
  qed
  from run_assignments_slot[OF run' iso target] own show ?thesis
    by auto
qed

text \<open>
  C2, as amended. Matching is case-insensitive on the side of the lookup name only. The
  Env Reader upper-cases each lookup name of a field (its \<open>DefaultEnvName\<close>, then its computed
  name) and looks the result up as it is, so a name matches the entry whose key is exactly
  the upper-cased name. For a field of the catalog, with no entry matching a field whose
  slot encloses its own or is enclosed in it:
  \<^item> when the table has no entry keyed by either upper-cased name, the field holds
    afterwards the value it held before, whatever other entries there are;
  \<^item> when the reader returns without error and the table has an entry keyed by the
    upper-cased computed name, the field holds the coercion of that entry's value;
  \<^item> when it has none, but one keyed by the upper-cased \<open>DefaultEnvName\<close>, the coercion of
    that one.
  The keys of the table are not upper-cased: an entry whose key is not its own
  upper-casing is never matched, and the reader does the same with and without such
  entries. Upper-casing the lookup names beforehand changes nothing.
\<close>

theorem readEnv_matches_upper_case_keys_only:
  assumes run: "readEnv lib fs config vars (h, root) = (r, (h', root'))"
    and i: "i < length fs"
    and dflt: "vars (strings_ToUpper (DefaultEnvName (Config (fs ! i)))) = dv"
    and spec: "vars (strings_ToUpper (distinctEnvName config (pass_names h fs (Env_Separator config) ! i))) = sv"
    and alone: "\<forall>j < length fs. j \<noteq> i \<and> overlap (slot (Value (fs ! j))) (slot (Value (fs ! i)))
        \<longrightarrow> vars (strings_ToUpper (DefaultEnvName (Config (fs ! j)))) = None
            \<and> vars (strings_ToUpper (distinctEnvName config (pass_names h fs (Env_Separator config) ! j))) = None"
    and target: "get_at root (slot (Value (fs ! i))) = Some target"
  shows "(dv = None \<and> sv = None \<longrightarrow> get_at root' (slot (Value (fs ! i))) = Some target)
       \<and> (\<forall>v. r = Ok () \<and> sv = Some v \<longrightarrow>
            (\<exists>new. setFromString lib (settable (Value (fs ! i))) target v = Inr new
               \<and> get_at root' (slot (Value (fs ! i))) = Some new))
       \<and> (\<forall>v. r = Ok () \<and> sv = None \<and> dv = Some v \<longrightarrow>
            (\<exists>new. setFromString lib (settable (Value (fs ! i))) target v = Inr new
               \<and> get_at root' (slot (Value (fs ! i))) = Some new))
       \<and> readEnv lib fs config (vars |` {k. strings_ToUpper k = k}) st = readEnv lib fs config vars st
       \<and> readEnv_names lib f vars (map strings_ToUpper names) root0 = readEnv_names lib f vars names root0"
proof -
  let ?cs = "settable (Value (fs ! i))"
  let ?own = "env_assignments_field (fs ! i) vars
      [DefaultEnvName (Config (fs ! i)), distinctEnvName config (pass_names h fs (Env_Separator config) ! i)]"
  obtain t' where t': "get_at root' (slot (Value (fs ! i))) = Some t'"
    and rt: "r = Ok () \<longrightarrow> run_target lib ?own target = (Ok (), t')"
    and none: "?own = [] \<longrightarrow> t' = target"
    using env_stage_slot[OF run i alone target] by auto
  have own: "?own = (case dv of None \<Rightarrow> [] | Some v \<Rightarrow> [FromString (fs ! i) v])
                  @ (case sv of None \<Rightarrow> [] | Some v \<Rightarrow> [FromString (fs ! i) v])"
    using dflt spec by (simp add: env_assignments_field_def)
  have a: "t' = target" if "dv = None" "sv = None"
    using none own that by simp
  have b: "setFromString lib ?cs target v = Inr t'" if ok: "r = Ok ()" and "sv = Some v" for v
  proof -
    have "run_target lib ((case dv of None \<Rightarrow> [] | Some v \<Rightarrow> [FromString (fs ! i) v]) @ [FromString (fs ! i) v]) target
        = (Ok (), t')"
      using rt ok own that by simp
    then show ?thesis by (rule run_target_last_string)
  qed
  have c: "setFromString lib ?cs target v = Inr t'" if ok: "r = Ok ()" and "sv = None" "dv = Some v" for v
  proof -
    have "run_target lib ([] @ [FromString (fs ! i) v]) target = (Ok (), t')"
      using rt ok own that by simp
    then show ?thesis by (rule run_target_last_string)
  qed
  have d: "readEnv lib fs config (vars |` {k. strings_ToUpper k = k}) (h, root) = readEnv lib fs config vars (h, root)"
    for h root
    by (induction fs arbitrary: h root)
       (simp_all add: readEnv_names_restrict del: readEnv_names.simps split: prod.splits outcome.splits)
  have 1: "dv = None \<and> sv = None \<longrightarrow> get_at root' (slot (Value (fs ! i))) = Some target"
    using t' a by simp
  have 2: "\<forall>v. r = Ok () \<and> sv = Some v \<longrightarrow>
            (\<exists>new. setFromString lib ?cs target v = Inr new
               \<and> get_at root' (slot (Value (fs ! i))) = Some new)"
    using t' b by auto
  have 3: "\<forall>v. r = Ok () \<and> sv = None \<and> dv = Some v \<longrightarrow>
            (\<exists>new. setFromString lib ?cs target v = Inr new
               \<and> get_at root' (slot (Value (fs ! i))) = Some new)"
    using t' c by auto
  have 4: "readEnv lib fs config (vars |` {k. strings_ToUpper k = k}) st = readEnv lib fs config vars st"
    by (cases st) (simp add: d)
  have 5: "readEnv_names lib f vars (map strings_ToUpper names) root0 = readEnv_names lib f vars names root0"
    by (rule readEnv_names_upper)
  show ?thesis
    by (rule conjI[OF 1 conjI[OF 2 conjI[OF 3 conjI[OF 4 5]]]])
qed

theorem readEnv_matches_upper_case_keys_only_witness:
  "readEnv (example_lib []) db_fields (Env DefaultCollector) [''DB_PORT'' \<mapsto> ''7'', ''db_host'' \<mapsto> ''x'']
     (db_heap, db_settings)
   = (Ok (), ([[''DB''], [''DB''], [''DB'', ''Port''], [''DB'', ''Host'']],
        VStruct [SField ''DB'' [] (VStruct
          [SField ''Port'' ''flag=listen'' (VInt KInt 7), SField ''Host'' [] (VString ''h'')])]))
   \<and> (\<exists>new. setFromString (example_lib []) True (VInt KInt 5) ''7'' = Inr new
          \<and> get_at (VStruct [SField ''DB'' [] (VStruct
               [SField ''Port'' ''flag=listen'' (VInt KInt 7), SField ''Host'' [] (VString ''h'')])]) [0, 0]
             = Some new)
   \<and> get_at (VStruct [SField ''DB'' [] (VStruct
        [SField ''Port'' ''flag=listen'' (VInt KInt 7), SField ''Host'' [] (VString ''h'')])]) [0, 1]
       = Some (VString ''h'')"
proof -
  let ?vars = "[''DB_PORT'' \<mapsto> ''7'', ''db_host'' \<mapsto> ''x'']"
  let ?root' = "VStruct [SField ''DB'' [] (VStruct
      [SField ''Port'' ''flag=listen'' (VInt KInt 7), SField ''Host'' [] (VString ''h'')])]"
  have run: "readEnv (example_lib []) db_fields (Env DefaultCollector) ?vars (db_heap, db_settings)
      = (Ok (), ([[''DB''], [''DB''], [''DB'', ''Port''], [''DB'', ''Host'']], ?root'))"
    by (simp add: eval_defs example_defs db_defs)
  have port: "Suc 0 < length db_fields" and host: "Suc (Suc 0) < length db_fields"
    by (simp_all add: db_length)
  have dflt1: "?vars (strings_ToUpper (DefaultEnvName (Config (db_fields ! Suc 0)))) = None"
    by (simp add: eval_defs db_defs)
  have spec1: "?vars (strings_ToUpper (distinctEnvName (Env DefaultCollector)
      (pass_names db_heap db_fields (Env_Separator (Env DefaultCollector)) ! Suc 0))) = Some ''7''"
    unfolding db_env_names by (simp add: eval_defs)
  have alone1: "\<forall>j < length db_fields. j \<noteq> Suc 0
        \<and> overlap (slot (Value (db_fields ! j))) (slot (Value (db_fields ! Suc 0)))
      \<longrightarrow> ?vars (strings_ToUpper (DefaultEnvName (Config (db_fields ! j)))) = None
          \<and> ?vars (strings_ToUpper (distinctEnvName (Env DefaultCollector)
                (pass_names db_heap db_fields (Env_Separator (Env DefaultCollector)) ! j))) = None"
    unfolding db_env_names db_length all_less_three by (simp add: eval_defs db_defs overlap_def)
  have target1: "get_at db_settings (slot (Value (db_fields ! Suc 0))) = Some (VInt KInt 5)"
    by (simp add: db_defs)
  have dflt2: "?vars (strings_ToUpper (DefaultEnvName (Config (db_fields ! Suc (Suc 0))))) = None"
    by (simp add: eval_defs db_defs)
  have spec2: "?vars (strings_ToUpper (distinctEnvName (Env DefaultCollector)
      (pass_names db_heap db_fields (Env_Separator (Env DefaultCollector)) ! Suc (Suc 0)))) = None"
    unfolding db_env_names by (simp add: eval_defs)
  have alone2: "\<forall>j < length db_fields. j \<noteq> Suc (Suc 0)
        \<and> overlap (slot (Value (db_fields ! j))) (slot (Value (db_fields ! Suc (Suc 0))))
      \<longrightarrow> ?vars (strings_ToUpper (DefaultEnvName (Config (db_fields ! j)))) = None
          \<and> ?vars (strings_ToUpper (distinctEnvName (Env DefaultCollector)
                (pass_names db_heap db_fields (Env_Separator (Env DefaultCollector)) ! j))) = None"
    unfolding db_env_names db_length all_less_three by (simp add: eval_defs db_defs overlap_def)
  have target2: "get_at db_settings (slot (Value (db_fields ! Suc (Suc 0)))) = Some (VString ''h'')"
    by (simp add: db_defs)
  have set: "\<exists>new. setFromString (example_lib []) True (VInt KInt 5) ''7'' = Inr new
      \<and> get_at ?root' [0, 0] = Some new"
    using readEnv_matches_upper_case_keys_only[OF run port dflt1 spec1 alone1 target1]
    by (simp add: db_defs)
  have kept: "get_at ?root' [0, 1] = Some (VString ''h'')"
    using readEnv_matches_upper_case_keys_only[OF run host dflt2 spec2 alone2 target2]
    by (simp add: db_defs)
  from run set kept show ?thesis by simp
qed

text \<open>Against C2 as stated: the computed name of \<open>Port\<close> is \<open>PORT\<close>; with the environment
  entry \<open>port=8080\<close> the field keeps its preset 3000, and with \<open>PORT=8080\<close> it is set.\<close>

theorem lower_case_entry_counterexample:
  "Collector_Get (example_lib []) (example_os [] [''port=8080''] []) [0] DefaultCollector (Pointer port_settings)
     = (Ok (), port_settings)"
  by (simp add: eval_defs example_defs)

lemma upper_case_entry_example:
  "Collector_Get (example_lib []) (example_os [] [''PORT=8080''] []) [0] DefaultCollector (Pointer port_settings)
     = (Ok (), VStruct [SField ''Port'' ''env=LISTEN,file=p,flag=l listen'' (VInt KInt 8080)])"
  by (simp add: eval_defs example_defs)

subsection \<open>The Flag Reader\<close>

text \<open>The flags of one field and what they make of its slot, when no flag of a field with
  an overlapping slot is \<open>Changed\<close>.\<close>

lemma flag_stage_slot:
  assumes run: "readPFlags lib fs config args order (h, root) = (r, (h', root'))"
    and perm: "distinct order" "set order = {..<length fs}"
    and i: "i < length fs"
    and parse: "pflag_Parse lib (flags_registered fs config h) args = Ok parsed"
    and alone: "\<forall>j < length fs. j \<noteq> i \<and> overlap (slot (Value (fs ! j))) (slot (Value (fs ! i)))
        \<longrightarrow> \<not> snd (parsed (fst (flag_names fs config h ! j)))
            \<and> \<not> snd (parsed (snd (flag_names fs config h ! j)))"
    and target: "get_at root (slot (Value (fs ! i))) = Some target"
  shows "\<exists>t'. get_at root' (slot (Value (fs ! i))) = Some t'
     \<and> (r = Ok () \<longrightarrow>
          run_target lib (flag_assignments_field (fs ! i) parsed
              [fst (flag_names fs config h ! i), snd (flag_names fs config h ! i)]) target = (Ok (), t'))
     \<and> (flag_assignments_field (fs ! i) parsed
              [fst (flag_names fs config h ! i), snd (flag_names fs config h ! i)] = [] \<longrightarrow> t' = target)"
proof -
  let ?p = "slot (Value (fs ! i))"
  let ?infos = "flag_names fs config h"
  let ?g = "\<lambda>j. if j < length fs \<and> j < length ?infos
                 then flag_assignments_field (fs ! j) parsed [fst (?infos ! j), snd (?infos ! j)] else []"
  let ?ws = "flag_assignments fs ?infos parsed order"
  have len: "length ?infos = length fs"
    by (simp add: flag_names_def)
  have slots: "w \<in> set (?g j) \<Longrightarrow> assigned_slot w = slot (Value (fs ! j))" for w j
    by (auto simp: flag_assignments_field_def assigned_slot_def split: if_splits)
  have none: "?g j = []" if "j < length fs" "j \<noteq> i" "overlap (slot (Value (fs ! j))) ?p" for j
    using alone that by (auto simp: flag_assignments_field_def)
  have run': "run_assignments lib ?ws root = (r, root')"
    using run readPFlags_unfold[OF parse, of order root] by (simp add: prod_eq_iff)
  have iso: "isolated ?p ?ws"
    unfolding isolated_def flag_assignments_def
  proof
    fix w assume "w \<in> set (concat (map ?g order))"
    then obtain j where j: "j \<in> set order" "w \<in> set (?g j)" by auto
    then have jl: "j < length fs" using perm by auto
    show "assigned_slot w = ?p \<or> \<not> overlap (assigned_slot w) ?p"
    proof (cases "j = i")
      case True
      with slots[OF j(2)] show ?thesis by simp
    next
      case False
      with none[OF jl] j(2) slots[OF j(2)] show ?thesis by auto
    qed
  qed
  have own: "filter (\<lambda>w. assigned_slot w = ?p) ?ws = ?g i"
  proof -
    have "filter (\<lambda>w. assigned_slot w = ?p) (concat (map ?g order)) = filter (\<lambda>w. assigned_slot w = ?p) (?g i)"
    proof (rule filter_concat_single[OF perm(1)])
      show "i \<in> set order" using perm i by simp
    next
      fix j assume j: "j \<in> set order" "j \<noteq> i"
      then have jl: "j < length fs" using perm by auto
      show "filter (\<lambda>w. assigned_slot w = ?p) (?g j) = []"
      proof (cases "overlap (slot (Value (fs ! j))) ?p")
        case True
        with none[OF jl j(2)] show ?thesis by simp
      next
        case False
        then have "slot (Value (fs ! j)) \<noteq> ?p" using overlap_refl by metis
        with slots[of _ j] show ?thesis by (auto simp: filter_empty_conv)
      qed
    qed
    moreover have "filter (\<lambda>w. assigned_slot w = ?p) (?g i) = ?g i"
      using slots[of _ i] by (auto simp: filter_id_conv)
    ultimately show ?thesis by (simp add: flag_assignments_def)
  qed
  have gi: "?g i = flag_assignments_field (fs ! i) parsed [fst (?infos ! i), snd (?infos ! i)]"
    using i len by simp
  from run_assignments_slot[OF run' iso target] own gi show ?thesis
    by auto
qed




text \<open>
  C9, as amended. When the Flag Reader returns without error, and the default flag and
  the specific flag of a field are both \<open>Changed\<close> (explicitly supplied), and no flag is
  supplied for a field whose slot encloses its own or is enclosed in it (a struct field
  and the fields inside it share storage), the field holds afterwards the coercion of the
  value given to the specific flag: the default identity is applied first and the
  specific identity after it. The order in which the map of fields is visited is any
  permutation.
\<close>

theorem specific_flag_applied_last:
  assumes run: "readPFlags lib fs config args order (h, root) = (Ok (), (h', root'))"
    and perm: "distinct order" "set order = {..<length fs}"
    and i: "i < length fs"
    and parse: "pflag_Parse lib (flags_registered fs config h) args = Ok parsed"
    and dflt: "parsed (fst (flag_names fs config h ! i)) = (dv, True)"
    and spec: "parsed (snd (flag_names fs config h ! i)) = (sv, True)"
    and alone: "\<forall>j < length fs. j \<noteq> i \<and> overlap (slot (Value (fs ! j))) (slot (Value (fs ! i)))
        \<longrightarrow> \<not> snd (parsed (fst (flag_names fs config h ! j)))
            \<and> \<not> snd (parsed (snd (flag_names fs config h ! j)))"
    and target: "get_at root (slot (Value (fs ! i))) = Some target"
  shows "\<exists>v. setFromString lib (settable (Value (fs ! i))) target sv = Inr v
           \<and> get_at root' (slot (Value (fs ! i))) = Some v"
proof -
  let ?cs = "settable (Value (fs ! i))"
  obtain t' where t': "get_at root' (slot (Value (fs ! i))) = Some t'"
    and rt: "run_target lib (flag_assignments_field (fs ! i) parsed
              [fst (flag_names fs config h ! i), snd (flag_names fs config h ! i)]) target = (Ok (), t')"
    using flag_stage_slot[OF run perm i parse alone target] by auto
  have "run_target lib [FromString (fs ! i) dv, FromString (fs ! i) sv] target = (Ok (), t')"
    using rt dflt spec by (simp add: flag_assignments_field_def)
  then obtain v1 where v1: "setFromString lib ?cs target dv = Inr v1"
    and v2: "setFromString lib ?cs v1 sv = Inr t'"
    by (auto simp: coerce_into_def split: sum.splits prod.splits outcome.splits)
  have "type_of v1 = type_of target"
    using v1 by (rule setFromString_type)
  then have "setFromString lib ?cs target sv = Inr t'"
    using v2 setFromString_cong[of v1 target lib ?cs sv] by simp
  with t' show ?thesis by simp
qed

theorem specific_flag_applied_last_witness:
  "readPFlags (example_lib []) db_fields (Flags DefaultCollector) [''--listen=7'', ''--db-port=9''] [2, 1, 0]
     (db_heap, db_settings)
   = (Ok (), ([[''DB''], [''DB''], [''DB'', ''Port''], [''DB'', ''Host'']],
        VStruct [SField ''DB'' [] (VStruct
          [SField ''Port'' ''flag=listen'' (VInt KInt 9), SField ''Host'' [] (VString ''h'')])]))
   \<and> example_parsed [([], []), (''db'', []), (''listen'', []), (''db-port'', []), (''db-host'', [])]
         [''--listen=7'', ''--db-port=9''] ''listen'' = (''7'', True)
   \<and> example_parsed [([], []), (''db'', []), (''listen'', []), (''db-port'', []), (''db-host'', [])]
         [''--listen=7'', ''--db-port=9''] ''db-port'' = (''9'', True)
   \<and> (\<exists>v. setFromString (example_lib []) True (VInt KInt 5) ''9'' = Inr v
          \<and> get_at (VStruct [SField ''DB'' [] (VStruct
               [SField ''Port'' ''flag=listen'' (VInt KInt 9), SField ''Host'' [] (VString ''h'')])]) [0, 0]
             = Some v)"
proof -
  let ?args = "[''--listen=7'', ''--db-port=9'']"
  let ?parsed = "example_parsed [([], []), (''db'', []), (''listen'', []), (''db-port'', []), (''db-host'', [])] ?args"
  let ?root' = "VStruct [SField ''DB'' [] (VStruct
      [SField ''Port'' ''flag=listen'' (VInt KInt 9), SField ''Host'' [] (VString ''h'')])]"
  have run: "readPFlags (example_lib []) db_fields (Flags DefaultCollector) ?args [2, 1, 0] (db_heap, db_settings)
      = (Ok (), ([[''DB''], [''DB''], [''DB'', ''Port''], [''DB'', ''Host'']], ?root'))"
    by (simp add: eval_defs example_defs db_defs)
  have perm: "distinct [2, 1, 0::nat]" "set [2, 1, 0::nat] = {..<length db_fields}"
    by (auto simp: db_length)
  have port: "Suc 0 < length db_fields"
    by (simp add: db_length)
  have parse: "pflag_Parse (example_lib []) (flags_registered db_fields (Flags DefaultCollector) db_heap) ?args
      = Ok ?parsed"
    by (simp add: db_flags_registered example_lib_def example_pflag_def)
  have dflt: "?parsed (fst (flag_names db_fields (Flags DefaultCollector) db_heap ! Suc 0)) = (''7'', True)"
    unfolding db_flag_names by (simp add: eval_defs example_defs)
  have spec: "?parsed (snd (flag_names db_fields (Flags DefaultCollector) db_heap ! Suc 0)) = (''9'', True)"
    unfolding db_flag_names by (simp add: eval_defs example_defs)
  have alone: "\<forall>j < length db_fields. j \<noteq> Suc 0
        \<and> overlap (slot (Value (db_fields ! j))) (slot (Value (db_fields ! Suc 0)))
      \<longrightarrow> \<not> snd (?parsed (fst (flag_names db_fields (Flags DefaultCollector) db_heap ! j)))
          \<and> \<not> snd (?parsed (snd (flag_names db_fields (Flags DefaultCollector) db_heap ! j)))"
    unfolding db_flag_names db_length all_less_three
    by (simp add: eval_defs example_defs db_defs overlap_def)
  from specific_flag_applied_last[OF run perm port parse dflt spec alone db_slot_port]
  have "\<exists>v. setFromString (example_lib []) True (VInt KInt 5) ''9'' = Inr v \<and> get_at ?root' [0, 0] = Some v"
    by (simp add: db_defs)
  moreover have "?parsed ''listen'' = (''7'', True)" and "?parsed ''db-port'' = (''9'', True)"
    by (simp_all add: eval_defs example_defs)
  ultimately show ?thesis using run by simp
qed

text \<open>Against C9 as stated: \<open>DB.Port\<close> has the default flag \<open>listen\<close> and the specific flag
  \<open>db-port\<close>. With \<open>--listen=7 --db-port=9 --db=\<close> both are supplied, and when the map
  iteration visits \<open>DB.Port\<close> before \<open>DB\<close>, the empty flag of \<open>DB\<close> resets the struct after
  9 was assigned: \<open>Get\<close> returns without error and \<open>Port\<close> ends with 0. When it visits \<open>DB\<close>
  first, \<open>Port\<close> ends with 9.\<close>

theorem struct_flag_after_specific_flag_counterexample:
  "Collector_Get (example_lib []) (example_os [] [] [''--listen=7'', ''--db-port=9'', ''--db=''])
     [1, 0, 2] DefaultCollector (Pointer db_settings)
     = (Ok (), VStruct [SField ''DB'' [] (VStruct
          [SField ''Port'' ''flag=listen'' (VInt KInt 0), SField ''Host'' [] (VString [])])])
   \<and> example_parsed [([], []), (''db'', []), (''listen'', []), (''db-port'', []), (''db-host'', [])]
         [''--listen=7'', ''--db-port=9'', ''--db=''] ''listen'' = (''7'', True)
   \<and> example_parsed [([], []), (''db'', []), (''listen'', []), (''db-port'', []), (''db-host'', [])]
         [''--listen=7'', ''--db-port=9'', ''--db=''] ''db-port'' = (''9'', True)"
  by (simp add: eval_defs example_defs db_defs)

lemma struct_flag_before_specific_flag_example:
  "Collector_Get (example_lib []) (example_os [] [] [''--listen=7'', ''--db-port=9'', ''--db=''])
     [0, 1, 2] DefaultCollector (Pointer db_settings)
     = (Ok (), VStruct [SField ''DB'' [] (VStruct
          [SField ''Port'' ''flag=listen'' (VInt KInt 9), SField ''Host'' [] (VString [])])])"
  by (simp add: eval_defs example_defs db_defs)

subsection \<open>The Collector\<close>

lemma all_sources_files:
  "files_supplied (example_lib [(''bytes'', port_file)])
     (example_os [(''config.yaml'', ''bytes'')] [''PORT=8080''] [''--port=9090'']) DefaultCollector [port_field] []
   = [FromFile port_field (FScalar ''1''), FromFile port_field (FScalar ''2'')]"
  by (simp add: files_supplied_def Get_decoded_files_def file_assignments_def file_assignments_field_def
      eval_defs example_defs)

lemma all_sources_env:
  "env_supplied (example_lib [(''bytes'', port_file)])
     (example_os [(''config.yaml'', ''bytes'')] [''PORT=8080''] [''--port=9090'']) DefaultCollector [port_field] []
   = [FromString port_field ''8080'']"
  by (simp add: env_supplied_def heap_after_files_def Get_decoded_files_def env_assignments_def
      env_assignments_field_def eval_defs example_defs)

lemma all_sources_flags:
  "flags_supplied (example_lib [(''bytes'', port_file)])
     (example_os [(''config.yaml'', ''bytes'')] [''PORT=8080''] [''--port=9090'']) [0] DefaultCollector [port_field] []
   = [FromString port_field ''9090'']"
  by (simp add: flags_supplied_def heap_after_env_def heap_after_files_def Get_decoded_files_def
      flag_assignments_def flag_assignments_field_def flag_names_def flags_registered_def
      eval_defs example_defs)

text \<open>
  The precedence of the sources. \<open>Get\<close> returns without error on a settings object whose
  catalog is \<open>fs\<close>. For a slot of the object that is isolated in the assignments of the
  merge (no source assigns a struct field enclosing it or a field inside it), with the
  caller's value \<open>preset\<close>:
  \<^item> if the flags supplied a value for the slot, the slot ends with the coercion of the last
    value the flags supplied;
  \<^item> otherwise, if the environment supplied one, with the coercion of the last value the
    environment supplied;
  \<^item> otherwise with what the values of the files make of the preset, which is the decoded
    value of the last one when it decodes, and the preset itself when no file supplied
    one.
\<close>

theorem precedence:
  assumes cat: "getFieldsConfigsFromValue [] t root_value nil_slice = Ok (fs, h0)"
    and get: "Collector_Get lib sys order c (Pointer t) = (Ok (), t')"
    and preset: "get_at t p = Some preset"
    and iso: "isolated p (files_supplied lib sys c fs h0 @ env_supplied lib sys c fs h0
                 @ flags_supplied lib sys order c fs h0)"
  shows "\<exists>v. get_at t' p = Some v
     \<and> (own p (flags_supplied lib sys order c fs h0) \<noteq> [] \<longrightarrow>
          setFromString lib
            (settable (Value (assigned_field (last (own p (flags_supplied lib sys order c fs h0))))))
            preset (assigned_text (last (own p (flags_supplied lib sys order c fs h0)))) = Inr v)
     \<and> (own p (flags_supplied lib sys order c fs h0) = [] \<and> own p (env_supplied lib sys c fs h0) \<noteq> [] \<longrightarrow>
          setFromString lib
            (settable (Value (assigned_field (last (own p (env_supplied lib sys c fs h0))))))
            preset (assigned_text (last (own p (env_supplied lib sys c fs h0)))) = Inr v)
     \<and> (own p (flags_supplied lib sys order c fs h0) = [] \<and> own p (env_supplied lib sys c fs h0) = [] \<longrightarrow>
          run_target lib (own p (files_supplied lib sys c fs h0)) preset = (Ok (), v)
          \<and> (\<forall>f x d. own p (files_supplied lib sys c fs h0) \<noteq> []
                \<and> last (own p (files_supplied lib sys c fs h0)) = FromFile f x
                \<and> mapstructure_Decode lib x (zero_of preset) = Some d \<longrightarrow> v = d)
          \<and> (own p (files_supplied lib sys c fs h0) = [] \<longrightarrow> v = preset))"
proof -
  let ?F = "own p (files_supplied lib sys c fs h0)"
  let ?E = "own p (env_supplied lib sys c fs h0)"
  let ?L = "own p (flags_supplied lib sys order c fs h0)"
  obtain v where v: "get_at t' p = Some v"
    and rt: "run_target lib (?F @ ?E @ ?L) preset = (Ok (), v)"
    using run_assignments_slot[OF Get_run[OF cat get] iso preset]
    by (auto simp: own_def)
  have Ls: "\<forall>w \<in> set ?L. is_FromString w" and Es: "\<forall>w \<in> set ?E. is_FromString w"
    using flags_supplied_strings env_supplied_strings by (auto simp: own_def)
  have flags: "setFromString lib (settable (Value (assigned_field (last ?L)))) preset (assigned_text (last ?L)) = Inr v"
    if "?L \<noteq> []"
  proof -
    have "run_target lib ((?F @ ?E @ butlast ?L) @ [FromString (assigned_field (last ?L)) (assigned_text (last ?L))]) preset
        = (Ok (), v)"
      using rt last_string[OF that Ls] by (metis append.assoc)
    then show ?thesis by (rule run_target_last_string)
  qed
  have env: "setFromString lib (settable (Value (assigned_field (last ?E)))) preset (assigned_text (last ?E)) = Inr v"
    if "?L = []" "?E \<noteq> []"
  proof -
    have "run_target lib ((?F @ butlast ?E) @ [FromString (assigned_field (last ?E)) (assigned_text (last ?E))]) preset
        = (Ok (), v)"
      using rt that(1) last_string[OF that(2) Es] by (metis append.assoc append_Nil2)
    then show ?thesis by (rule run_target_last_string)
  qed
  have files: "run_target lib ?F preset = (Ok (), v)" if "?L = []" "?E = []"
    using rt that by simp
  have decoded: "v = d"
    if "?L = []" "?E = []" "?F \<noteq> []" "last ?F = FromFile f x" "mapstructure_Decode lib x (zero_of preset) = Some d"
    for f x d
  proof -
    have "run_target lib (butlast ?F @ [FromFile f x]) preset = (Ok (), v)"
      using files[OF that(1,2)] that(3,4) by (metis append_butlast_last_id)
    then show ?thesis using that(5) by (rule run_target_last_file)
  qed
  have none: "v = preset" if "?L = []" "?E = []" "?F = []"
    using files[OF that(1,2)] that(3) by simp
  from v flags env files decoded none show ?thesis
    by blast
qed

theorem precedence_witness:
  "Collector_Get (example_lib [(''bytes'', port_file)])
     (example_os [(''config.yaml'', ''bytes'')] [''PORT=8080''] [''--port=9090'']) [0] DefaultCollector
     (Pointer port_settings)
   = (Ok (), VStruct [SField ''Port'' ''env=LISTEN,file=p,flag=l listen'' (VInt KInt 9090)])
   \<and> own [0] (flags_supplied (example_lib [(''bytes'', port_file)])
        (example_os [(''config.yaml'', ''bytes'')] [''PORT=8080''] [''--port=9090'']) [0] DefaultCollector
        [port_field] []) = [FromString port_field ''9090'']
   \<and> (\<exists>v. get_at (VStruct [SField ''Port'' ''env=LISTEN,file=p,flag=l listen'' (VInt KInt 9090)]) [0] = Some v
          \<and> setFromString (example_lib [(''bytes'', port_file)]) True (VInt KInt 3000) ''9090'' = Inr v)"
proof -
  let ?lib = "example_lib [(''bytes'', port_file)]"
  let ?sys = "example_os [(''config.yaml'', ''bytes'')] [''PORT=8080''] [''--port=9090'']"
  have get: "Collector_Get ?lib ?sys [0] DefaultCollector (Pointer port_settings)
      = (Ok (), VStruct [SField ''Port'' ''env=LISTEN,file=p,flag=l listen'' (VInt KInt 9090)])"
    by (simp add: eval_defs example_defs)
  have preset: "get_at port_settings [0] = Some (VInt KInt 3000)"
    by (simp add: example_defs)
  have iso: "isolated [0] (files_supplied ?lib ?sys DefaultCollector [port_field] []
      @ env_supplied ?lib ?sys DefaultCollector [port_field] []
      @ flags_supplied ?lib ?sys [0] DefaultCollector [port_field] [])"
    unfolding all_sources_files all_sources_env all_sources_flags
    by (simp add: isolated_def assigned_slot_def port_field_def)
  have own: "own [0] (flags_supplied ?lib ?sys [0] DefaultCollector [port_field] []) = [FromString port_field ''9090'']"
    unfolding all_sources_flags by (simp add: own_def assigned_slot_def port_field_def)
  from precedence[OF port_settings_catalog get preset iso] own
  have "\<exists>v. get_at (VStruct [SField ''Port'' ''env=LISTEN,file=p,flag=l listen'' (VInt KInt 9090)]) [0] = Some v
          \<and> setFromString ?lib True (VInt KInt 3000) ''9090'' = Inr v"
    by (auto simp: port_field_def)
  with get own show ?thesis
    by simp
qed

text \<open>The four cases of the precedence on the example: no source, the file alone, the file
  and the environment, all three.\<close>

lemma precedence_example_no_source:
  "Collector_Get (example_lib []) (example_os [] [] []) [0] DefaultCollector (Pointer port_settings)
     = (Ok (), port_settings)"
  by (simp add: eval_defs example_defs)

lemma precedence_example_file:
  "Collector_Get (example_lib [(''bytes'', [(''port'', FScalar ''2'')])])
     (example_os [(''config.yaml'', ''bytes'')] [] []) [0] DefaultCollector (Pointer port_settings)
   = (Ok (), VStruct [SField ''Port'' ''env=LISTEN,file=p,flag=l listen'' (VInt KInt 2)])"
  by (simp add: eval_defs example_defs)

lemma precedence_example_file_env:
  "Collector_Get (example_lib [(''bytes'', [(''port'', FScalar ''2'')])])
     (example_os [(''config.yaml'', ''bytes'')] [''PORT=8080''] []) [0] DefaultCollector (Pointer port_settings)
   = (Ok (), VStruct [SField ''Port'' ''env=LISTEN,file=p,flag=l listen'' (VInt KInt 8080)])"
  by (simp add: eval_defs example_defs)

lemma precedence_example_file_env_flag:
  "Collector_Get (example_lib [(''bytes'', [(''port'', FScalar ''2'')])])
     (example_os [(''config.yaml'', ''bytes'')] [''PORT=8080''] [''--port=9090'']) [0] DefaultCollector
     (Pointer port_settings)
   = (Ok (), VStruct [SField ''Port'' ''env=LISTEN,file=p,flag=l listen'' (VInt KInt 9090)])"
  by (simp add: eval_defs example_defs)

text \<open>
  C1. A field set by no source should keep the caller's preset. A file sets a nested field
  through the mapping of its struct: the file with \<open>db: {port: 7}\<close> names \<open>DB.Port\<close> and does
  not name \<open>DB.Host\<close>. \<open>readFileMap\<close> finds the key \<open>db\<close> for the entry of \<open>DB\<close> first, decodes
  the mapping into the zero value of the type of \<open>DB\<close>, not into the value the field holds,
  and assigns the result: \<open>Get\<close> returns without error, \<open>Port\<close> is 7, and \<open>Host\<close>, which no
  source names, has lost its preset \<open>h\<close>.
\<close>

theorem file_for_nested_field_resets_sibling:
  "Collector_Get (example_lib [(''bytes'', [(''db'', FMap [(''port'', FScalar ''7'')])])])
     (example_os [(''config.yaml'', ''bytes'')] [] []) [0, 1, 2] DefaultCollector (Pointer db_settings)
   = (Ok (), VStruct [SField ''DB'' [] (VStruct
        [SField ''Port'' ''flag=listen'' (VInt KInt 7), SField ''Host'' [] (VString [])])])"
  by (simp add: eval_defs example_defs db_defs)

text \<open>With no source the nested fields keep their presets.\<close>

lemma no_source_keeps_nested_presets:
  "Collector_Get (example_lib []) (example_os [] [] []) [0, 1, 2] DefaultCollector (Pointer db_settings)
   = (Ok (), db_settings)"
  by (simp add: eval_defs example_defs db_defs)

subsection \<open>A pass in catalog order computes the paths of the settings type\<close>

text \<open>The bases of the catalog share backing arrays, and \<open>FullName\<close> appends to them. A pass
  that calls \<open>FullName\<close> on every field of the catalog in order writes the name of each
  struct field back before it reads the names of the fields below it.\<close>

lemma growslice_cap_gt: "c < growslice_cap c"
  by (simp add: growslice_cap_def)

lemma same_shape_refl: "same_shape h h"
  by (simp add: same_shape_def)

lemma same_shape_trans: "same_shape a b \<Longrightarrow> same_shape b c \<Longrightarrow> same_shape a c"
  by (auto simp: same_shape_def)

lemma go_append_in_place:
  assumes "len s < cap s"
  shows "go_append h s x = (s\<lparr>len := len s + 1\<rparr>, h[arr s := (h ! arr s)[len s := x]])"
  using assms by (simp add: go_append_def)

lemma go_append_fresh:
  assumes "\<not> len s < cap s"
  shows "go_append h s x =
     (\<lparr>arr = length h, len = len s + 1, cap = growslice_cap (cap s)\<rparr>,
      h @ [slice_elems h s @ x # replicate (growslice_cap (cap s) - len s - 1) []])"
  using assms by (simp add: go_append_def)

lemma slice_elems_length: "wf_slice h s \<Longrightarrow> length (slice_elems h s) = len s"
  by (auto simp: wf_slice_def slice_elems_def)

lemma go_append_elems:
  assumes "wf_slice h s"
  shows "slice_elems (snd (go_append h s x)) (fst (go_append h s x)) = slice_elems h s @ [x]"
proof (cases "len s < cap s")
  case True
  then have a: "arr s < length h" "length (h ! arr s) = cap s"
    using assms by (auto simp: wf_slice_def)
  show ?thesis
    using True a
    by (simp add: go_append_in_place slice_elems_def take_Suc_conv_app_nth)
next
  case False
  then have "len s = cap s" using assms by (simp add: wf_slice_def)
  with False show ?thesis
    using slice_elems_length[OF assms] growslice_cap_gt[of "cap s"]
    by (simp add: go_append_fresh slice_elems_def)
qed

lemma go_append_wf:
  assumes "wf_slice h s"
  shows "wf_slice (snd (go_append h s x)) (fst (go_append h s x))"
proof (cases "len s < cap s")
  case True
  with assms show ?thesis
    by (auto simp: go_append_in_place wf_slice_def)
next
  case False
  then have "len s = cap s" using assms by (simp add: wf_slice_def)
  with False show ?thesis
    using slice_elems_length[OF assms] growslice_cap_gt[of "cap s"]
    by (auto simp: go_append_fresh wf_slice_def)
qed

lemma FullName_name:
  assumes "wf_slice h (Base f)"
  shows "fst (FullName h f sep) = strings_Join (slice_elems h (Base f) @ [Name f]) sep"
  using go_append_elems[OF assms, of "Name f"]
  by (cases "go_append h (Base f) (Name f)") (simp add: FullName_def)

lemma FullName_heap: "snd (FullName h f sep) = snd (go_append h (Base f) (Name f))"
  by (simp add: FullName_def split: prod.splits)


lemma wf_slice_same_shape: "wf_slice h s \<Longrightarrow> same_shape h g \<Longrightarrow> wf_slice g s"
  by (auto simp: wf_slice_def same_shape_def)

text \<open>What one append does to a heap.\<close>

lemma go_append_shape:
  assumes "wf_slice g s"
  shows "same_shape g (snd (go_append g s x))"
proof (cases "len s < cap s")
  case True
  with assms show ?thesis
    by (auto simp: go_append_in_place same_shape_def wf_slice_def nth_list_update)
next
  case False
  then show ?thesis
    by (auto simp: go_append_fresh same_shape_def nth_append)
qed

lemma go_append_cells:
  assumes "a < length g"
  shows "(a = arr s \<and> k = len s \<and> len s < cap s) \<or> snd (go_append g s x) ! a ! k = g ! a ! k"
proof (cases "len s < cap s")
  case True
  show ?thesis
  proof (cases "a = arr s")
    case a: True
    show ?thesis
    proof (cases "k = len s")
      case True
      with a \<open>len s < cap s\<close> show ?thesis by simp
    next
      case False
      then have "(g ! arr s)[len s := x] ! k = g ! arr s ! k" by simp
      with a assms \<open>len s < cap s\<close> show ?thesis by (simp add: go_append_in_place)
    qed
  next
    case False
    with \<open>len s < cap s\<close> show ?thesis by (simp add: go_append_in_place)
  qed
next
  case False
  with assms show ?thesis
    by (auto simp: go_append_fresh nth_append)
qed

lemma slice_elems_cong:
  assumes "len s = 0 \<or> (len s \<le> length (g ! arr s) \<and> len s \<le> length (g' ! arr s))"
    and "\<And>k. k < len s \<Longrightarrow> g' ! arr s ! k = g ! arr s ! k"
  shows "slice_elems g' s = slice_elems g s"
proof (cases "len s = 0")
  case True
  then show ?thesis by (simp add: slice_elems_def)
next
  case False
  with assms(1) have l: "len s \<le> length (g ! arr s)" "len s \<le> length (g' ! arr s)" by auto
  have "take (len s) (g' ! arr s) = take (len s) (g ! arr s)"
    using l assms(2) by (intro nth_equalityI) auto
  with False show ?thesis by (simp add: slice_elems_def)
qed

lemma go_append_keeps_elems:
  assumes "wf_slice g s"
  shows "slice_elems (snd (go_append g s x)) s = slice_elems g s"
proof (rule slice_elems_cong)
  show "len s = 0 \<or> len s \<le> length (g ! arr s) \<and> len s \<le> length (snd (go_append g s x) ! arr s)"
    using assms go_append_shape[OF assms, of x]
    by (auto simp: wf_slice_def same_shape_def)
next
  fix k assume k: "k < len s"
  then have "arr s < length g" using assms by (auto simp: wf_slice_def)
  from go_append_cells[OF this, of s k x] k show "snd (go_append g s x) ! arr s ! k = g ! arr s ! k"
    by auto
qed

lemma pass_names_append:
  "pass_names g (xs @ ys) sep = pass_names g xs sep @ pass_names (pass_heap g xs sep) ys sep"
  by (induction xs arbitrary: g) (auto split: prod.splits)

lemma pass_heap_append:
  "pass_heap g (xs @ ys) sep = pass_heap (pass_heap g xs sep) ys sep"
  by (induction xs arbitrary: g) (auto split: prod.splits)

lemma pass_names_Cons:
  "pass_names g (f # fs) sep = fst (FullName g f sep) # pass_names (snd (go_append g (Base f) (Name f))) fs sep"
  by (simp add: FullName_def split: prod.splits)

lemma pass_heap_Cons:
  "pass_heap g (f # fs) sep = pass_heap (snd (go_append g (Base f) (Name f))) fs sep"
  by (simp add: FullName_def split: prod.splits)

lemma volatile_Cons:
  "volatile (f # fs) = (if len (Base f) < cap (Base f) then {(arr (Base f), len (Base f))} else {}) \<union> volatile fs"
  by (auto simp: volatile_def)

lemma volatile_append: "volatile (xs @ ys) = volatile xs \<union> volatile ys"
  by (auto simp: volatile_def)

lemma built_leaf:
  assumes rest: "built h h' base tb new names sep"
    and wf: "wf_slice h base" and cells: "slice_elems h base = tb"
    and f: "Base f = base"
  shows "built h h' base tb (f # new) (strings_Join (tb @ [Name f]) sep # names) sep"
proof -
  have shape: "same_shape h h'" and frame: "built_frame h h' base" and ents: "entries_ok h h' base new"
    and pass: "\<And>g. pass_pre h h' base tb new g \<Longrightarrow>
        pass_names g new sep = names \<and> pass_post new g (pass_heap g new sep)"
    using rest by (auto simp: built_def)
  have ents': "entries_ok h h' base (f # new)"
    using ents f wf_slice_same_shape[OF wf shape] by (auto simp: entries_ok_def)
  have pass': "pass_names g (f # new) sep = strings_Join (tb @ [Name f]) sep # names
        \<and> pass_post (f # new) g (pass_heap g (f # new) sep)"
    if pre: "pass_pre h h' base tb (f # new) g" for g
  proof -
    let ?g1 = "snd (go_append g base (Name f))"
    have sg: "same_shape h' g" and cg: "slice_elems g base = tb"
      and ag: "\<And>a k. length h \<le> a \<Longrightarrow> a < length h' \<Longrightarrow> (a, k) \<notin> volatile (f # new) \<Longrightarrow> g ! a ! k = h' ! a ! k"
      using pre by (auto simp: pass_pre_def)
    have wfg: "wf_slice g base"
      using wf shape sg by (auto intro: wf_slice_same_shape)
    have name: "fst (FullName g f sep) = strings_Join (tb @ [Name f]) sep"
      using FullName_name[of g f sep] wfg f cg by simp
    have s1: "same_shape g ?g1"
      by (rule go_append_shape[OF wfg])
    have c1: "(a = arr base \<and> k = len base \<and> len base < cap base) \<or> ?g1 ! a ! k = g ! a ! k"
      if "a < length g" for a k
      by (rule go_append_cells[OF that])
    have pre1: "pass_pre h h' base tb new ?g1"
      unfolding pass_pre_def
    proof (intro conjI allI impI)
      show "same_shape h' ?g1" using sg s1 by (rule same_shape_trans)
      show "slice_elems ?g1 base = tb" using go_append_keeps_elems[OF wfg] cg by simp
    next
      fix a k assume a: "length h \<le> a \<and> a < length h' \<and> (a, k) \<notin> volatile new"
      then have al: "a < length g" using sg by (auto simp: same_shape_def)
      have nb: "\<not> (a = arr base \<and> len base < cap base)"
        using a wf by (auto simp: wf_slice_def)
      then have "(a, k) \<notin> volatile (f # new)"
        using a f by (auto simp: volatile_Cons)
      then have "g ! a ! k = h' ! a ! k" using ag a by simp
      moreover have "?g1 ! a ! k = g ! a ! k" using c1[OF al, of k] nb by auto
      ultimately show "?g1 ! a ! k = h' ! a ! k" by simp
    qed
    from pass[OF pre1] have pn: "pass_names ?g1 new sep = names"
      and pp: "pass_post new ?g1 (pass_heap ?g1 new sep)" by auto
    have post: "pass_post (f # new) g (pass_heap ?g1 new sep)"
      unfolding pass_post_def
    proof (intro conjI allI impI)
      show "same_shape g (pass_heap ?g1 new sep)"
        using s1 pp by (auto simp: pass_post_def intro: same_shape_trans)
    next
      fix a k assume al: "a < length g"
      then have al1: "a < length ?g1" using s1 by (auto simp: same_shape_def)
      have "(a, k) \<in> volatile new \<or> pass_heap ?g1 new sep ! a ! k = ?g1 ! a ! k"
        using pp al1 by (simp add: pass_post_def)
      moreover have "(a, k) \<in> volatile [f] \<or> ?g1 ! a ! k = g ! a ! k"
        using c1[OF al, of k] f by (auto simp: volatile_def)
      ultimately show "(a, k) \<in> volatile (f # new) \<or> pass_heap ?g1 new sep ! a ! k = g ! a ! k"
        using volatile_append[of "[f]" new] by auto
    qed
    show ?thesis
      unfolding pass_names_Cons pass_heap_Cons using name pn post f by simp
  qed
  show ?thesis
    unfolding built_def using shape frame ents' pass' by blast
qed


lemma volatile_region:
  assumes "entries_ok h h' base new" and "(a, k) \<in> volatile new"
  shows "a < length h' \<and> ((a = arr base \<and> len base \<le> k \<and> k < cap base) \<or> length h \<le> a)"
  using assms by (auto simp: entries_ok_def volatile_def wf_slice_def)

lemma built_struct:
  assumes ap: "go_append h base n = (newBase, h1)"
    and wf: "wf_slice h base" and cells: "slice_elems h base = tb"
    and sub: "built h1 h2 newBase (tb @ [n]) subfs subnames sep"
    and rest: "built h2 h' base tb new names sep"
    and f: "Base f = base" "Name f = n"
  shows "built h h' base tb (f # subfs @ new) (strings_Join (tb @ [n]) sep # subnames @ names) sep"
proof -
  have s12: "same_shape h1 h2" and fr12: "built_frame h1 h2 newBase" and en12: "entries_ok h1 h2 newBase subfs"
    and pass_sub: "\<And>g. pass_pre h1 h2 newBase (tb @ [n]) subfs g \<Longrightarrow>
        pass_names g subfs sep = subnames \<and> pass_post subfs g (pass_heap g subfs sep)"
    using sub by (auto simp: built_def)
  have s2': "same_shape h2 h'" and fr2': "built_frame h2 h' base" and en2': "entries_ok h2 h' base new"
    and pass_rest: "\<And>g. pass_pre h2 h' base tb new g \<Longrightarrow>
        pass_names g new sep = names \<and> pass_post new g (pass_heap g new sep)"
    using rest by (auto simp: built_def)
  have h1: "h1 = snd (go_append h base n)" and nb: "newBase = fst (go_append h base n)"
    using ap by simp_all
  have s01: "same_shape h h1"
    unfolding h1 by (rule go_append_shape[OF wf])
  have c01: "(a = arr base \<and> k = len base \<and> len base < cap base) \<or> h1 ! a ! k = h ! a ! k"
    if "a < length h" for a k
    unfolding h1 by (rule go_append_cells[OF that])
  have el1: "slice_elems h1 newBase = tb @ [n]"
    using go_append_elems[OF wf, of n] cells h1 nb by simp
  have wf1: "wf_slice h1 newBase"
    using go_append_wf[OF wf, of n] h1 nb by simp
  have NB: "(arr newBase = arr base \<and> len newBase = len base + 1 \<and> cap newBase = cap base
              \<and> len base < cap base \<and> length h1 = length h)
          \<or> (arr newBase = length h \<and> len newBase = len base + 1 \<and> 0 < cap newBase
              \<and> \<not> len base < cap base \<and> length h1 = length h + 1)"
    using ap growslice_cap_gt[of "cap base"] by (auto simp: go_append_def split: if_splits)
  have lens: "length h \<le> length h1" "length h1 \<le> length h2" "length h2 \<le> length h'"
    using s01 s12 s2' by (auto simp: same_shape_def)
  have ab: "arr base < length h" if "0 < cap base"
    using wf that by (auto simp: wf_slice_def)
  have shape: "same_shape h h'"
    using s01 s12 s2' by (blast intro: same_shape_trans)
  have frame: "built_frame h h' base"
    unfolding built_frame_def
  proof (intro allI impI)
    fix a k assume a: "a < length h"
    have 1: "(a = arr base \<and> len base \<le> k \<and> 0 < cap base) \<or> h' ! a ! k = h2 ! a ! k"
      using fr2' a lens by (auto simp: built_frame_def)
    have 2: "(a = arr newBase \<and> len newBase \<le> k \<and> 0 < cap newBase) \<or> h2 ! a ! k = h1 ! a ! k"
      using fr12 a lens by (auto simp: built_frame_def)
    have 3: "(a = arr base \<and> k = len base \<and> len base < cap base) \<or> h1 ! a ! k = h ! a ! k"
      by (rule c01[OF a])
    show "(a = arr base \<and> len base \<le> k \<and> 0 < cap base) \<or> h' ! a ! k = h ! a ! k"
      using 1 2 3 NB a by auto
  qed
  have vsub: "a < length h2 \<and> ((a = arr base \<and> len base < k \<and> len base < cap base) \<or> length h \<le> a)
        \<and> (a = length h \<and> \<not> len base < cap base \<longrightarrow> len base < k)"
    if "(a, k) \<in> volatile subfs" for a k
    using volatile_region[OF en12 that] NB ab by auto
  have vnew: "a < length h' \<and> ((a = arr base \<and> len base \<le> k \<and> k < cap base) \<or> length h2 \<le> a)"
    if "(a, k) \<in> volatile new" for a k
    using volatile_region[OF en2' that] by auto
  have vf: "a = arr base \<and> k = len base \<and> len base < cap base"
    if "(a, k) \<in> volatile [f]" for a k
    using that f by (auto simp: volatile_def)
  have vall: "volatile (f # subfs @ new) = volatile [f] \<union> volatile subfs \<union> volatile new"
    using volatile_append[of "[f]" "subfs @ new"] volatile_append[of subfs new] by auto
  have ents: "entries_ok h h' base (f # subfs @ new)"
    unfolding entries_ok_def
  proof
    fix e assume "e \<in> set (f # subfs @ new)"
    then consider "e = f" | "e \<in> set subfs" | "e \<in> set new" by auto
    then show "wf_slice h' (Base e)
        \<and> ((arr (Base e) = arr base \<and> len base \<le> len (Base e) \<and> cap (Base e) = cap base)
            \<or> (length h \<le> arr (Base e) \<and> 0 < cap (Base e)))"
    proof cases
      case 1
      then show ?thesis using f wf_slice_same_shape[OF wf shape] by simp
    next
      case 2
      then have "wf_slice h2 (Base e)"
        and "(arr (Base e) = arr newBase \<and> len newBase \<le> len (Base e) \<and> cap (Base e) = cap newBase)
            \<or> (length h1 \<le> arr (Base e) \<and> 0 < cap (Base e))"
        using en12 by (auto simp: entries_ok_def)
      then show ?thesis
        using NB lens wf_slice_same_shape[OF _ s2'] by auto
    next
      case 3
      then show ?thesis using en2' lens by (auto simp: entries_ok_def)
    qed
  qed
  have pass: "pass_names g (f # subfs @ new) sep = strings_Join (tb @ [n]) sep # subnames @ names
        \<and> pass_post (f # subfs @ new) g (pass_heap g (f # subfs @ new) sep)"
    if pre: "pass_pre h h' base tb (f # subfs @ new) g" for g
  proof -
    let ?g1 = "snd (go_append g base n)"
    have sg: "same_shape h' g" and cg: "slice_elems g base = tb"
      and ag: "\<And>a k. length h \<le> a \<Longrightarrow> a < length h' \<Longrightarrow> (a, k) \<notin> volatile (f # subfs @ new)
          \<Longrightarrow> g ! a ! k = h' ! a ! k"
      using pre by (auto simp: pass_pre_def)
    have lg: "length h' \<le> length g" using sg by (simp add: same_shape_def)
    have wfg: "wf_slice g base"
      using wf shape sg by (auto intro: wf_slice_same_shape)
    have name: "fst (FullName g f sep) = strings_Join (tb @ [n]) sep"
      using FullName_name[of g f sep] wfg f cg by simp
    have s1: "same_shape g ?g1"
      by (rule go_append_shape[OF wfg])
    have lg1: "length g \<le> length ?g1" using s1 by (simp add: same_shape_def)
    have c1: "(a = arr base \<and> k = len base \<and> len base < cap base) \<or> ?g1 ! a ! k = g ! a ! k"
      if "a < length g" for a k
      by (rule go_append_cells[OF that])
    have keep: "?g1 ! a ! k = g ! a ! k" if "length h \<le> a" "a < length g" for a k
      using c1[OF that(2), of k] ab that(1) by auto
    have sh2g1: "same_shape h2 ?g1"
      using s2' sg s1 by (blast intro: same_shape_trans)
    have agree1: "?g1 ! a ! k = h2 ! a ! k"
      if a: "length h \<le> a" "a < length h2" and nv: "(a, k) \<notin> volatile subfs" for a k
    proof -
      have "(a, k) \<notin> volatile (f # subfs @ new)"
        using vall nv vf[of a k] vnew[of a k] a ab by auto
      then have "g ! a ! k = h' ! a ! k" using ag a lens by simp
      moreover have "h' ! a ! k = h2 ! a ! k"
        using fr2'[unfolded built_frame_def, rule_format, of a k] a ab by auto
      moreover have "?g1 ! a ! k = g ! a ! k" using keep a lens lg by simp
      ultimately show ?thesis by simp
    qed
    have el_g1: "slice_elems ?g1 newBase = tb @ [n]"
    proof (cases "len base < cap base")
      case True
      then have "fst (go_append g base n) = newBase"
        using NB ap by (auto simp: go_append_def)
      then show ?thesis
        using go_append_elems[OF wfg, of n] cg by simp
    next
      case False
      then have nbf: "arr newBase = length h" "len newBase = len base + 1" "length h1 = length h + 1"
        using NB by auto
      have "slice_elems ?g1 newBase = slice_elems h1 newBase"
      proof (rule slice_elems_cong)
        have "length (?g1 ! arr newBase) = length (h1 ! arr newBase)"
          using sh2g1 s12 nbf by (auto simp: same_shape_def)
        moreover have "len newBase \<le> length (h1 ! arr newBase)"
          using wf1 nbf by (auto simp: wf_slice_def)
        ultimately show "len newBase = 0 \<or> len newBase \<le> length (h1 ! arr newBase)
            \<and> len newBase \<le> length (?g1 ! arr newBase)"
          by simp
      next
        fix k assume k: "k < len newBase"
        have nv: "(length h, k) \<notin> volatile subfs"
          using vsub[of "length h" k] k nbf False by auto
        have "?g1 ! length h ! k = h2 ! length h ! k"
          using agree1[OF _ _ nv] nbf lens by simp
        moreover have "h2 ! length h ! k = h1 ! length h ! k"
          using fr12[unfolded built_frame_def, rule_format, of "length h" k] nbf k by auto
        ultimately show "?g1 ! arr newBase ! k = h1 ! arr newBase ! k"
          using nbf by simp
      qed
      with el1 show ?thesis by simp
    qed
    have pre_sub: "pass_pre h1 h2 newBase (tb @ [n]) subfs ?g1"
      unfolding pass_pre_def using sh2g1 el_g1 agree1 lens by auto
    let ?g2 = "pass_heap ?g1 subfs sep"
    from pass_sub[OF pre_sub] have pn_sub: "pass_names ?g1 subfs sep = subnames"
      and pp_sub: "pass_post subfs ?g1 ?g2" by auto
    have s12g: "same_shape ?g1 ?g2" using pp_sub by (simp add: pass_post_def)
    have c2: "(a, k) \<in> volatile subfs \<or> ?g2 ! a ! k = ?g1 ! a ! k" if "a < length ?g1" for a k
      using pp_sub that by (simp add: pass_post_def)
    have el_g2: "slice_elems ?g2 base = tb"
    proof -
      have "slice_elems ?g2 base = slice_elems ?g1 base"
      proof (rule slice_elems_cong)
        show "len base = 0 \<or> len base \<le> length (?g1 ! arr base) \<and> len base \<le> length (?g2 ! arr base)"
          using wfg s1 s12g by (auto simp: wf_slice_def same_shape_def)
      next
        fix k assume k: "k < len base"
        then have "arr base < length h" using wf by (auto simp: wf_slice_def)
        then have "arr base < length ?g1" using lens lg lg1 by simp
        moreover have "(arr base, k) \<notin> volatile subfs"
          using vsub[of "arr base" k] k \<open>arr base < length h\<close> by auto
        ultimately show "?g2 ! arr base ! k = ?g1 ! arr base ! k"
          using c2 by blast
      qed
      then show ?thesis using go_append_keeps_elems[OF wfg, of n] cg by simp
    qed
    have pre_rest: "pass_pre h2 h' base tb new ?g2"
      unfolding pass_pre_def
    proof (intro conjI allI impI)
      show "same_shape h' ?g2" using sg s1 s12g by (blast intro: same_shape_trans)
      show "slice_elems ?g2 base = tb" by (rule el_g2)
    next
      fix a k assume a: "length h2 \<le> a \<and> a < length h' \<and> (a, k) \<notin> volatile new"
      have nvs: "(a, k) \<notin> volatile subfs" using vsub[of a k] a by auto
      have "(a, k) \<notin> volatile (f # subfs @ new)"
        using vall nvs vf[of a k] a ab lens by auto
      then have "g ! a ! k = h' ! a ! k" using ag a lens by simp
      moreover have "?g1 ! a ! k = g ! a ! k" using keep a lens lg by simp
      moreover have "?g2 ! a ! k = ?g1 ! a ! k" using c2[of a k] nvs a lg lg1 by auto
      ultimately show "?g2 ! a ! k = h' ! a ! k" by simp
    qed
    let ?g3 = "pass_heap ?g2 new sep"
    from pass_rest[OF pre_rest] have pn_rest: "pass_names ?g2 new sep = names"
      and pp_rest: "pass_post new ?g2 ?g3" by auto
    have post: "pass_post (f # subfs @ new) g ?g3"
      unfolding pass_post_def
    proof (intro conjI allI impI)
      show "same_shape g ?g3"
        using s1 s12g pp_rest by (auto simp: pass_post_def intro: same_shape_trans)
    next
      fix a k assume al: "a < length g"
      have l2: "a < length ?g1" "a < length ?g2"
        using al lg1 s12g by (auto simp: same_shape_def)
      have "(a, k) \<in> volatile new \<or> ?g3 ! a ! k = ?g2 ! a ! k"
        using pp_rest l2 by (simp add: pass_post_def)
      moreover have "(a, k) \<in> volatile subfs \<or> ?g2 ! a ! k = ?g1 ! a ! k"
        using c2 l2 by simp
      moreover have "(a, k) \<in> volatile [f] \<or> ?g1 ! a ! k = g ! a ! k"
        using c1[OF al, of k] f by (auto simp: volatile_def)
      ultimately show "(a, k) \<in> volatile (f # subfs @ new) \<or> ?g3 ! a ! k = g ! a ! k"
        using vall by auto
    qed
    show ?thesis
      unfolding pass_names_Cons pass_heap_Cons pass_names_append pass_heap_append
      using name pn_sub pn_rest post f by simp
  qed
  show ?thesis
    unfolding built_def using shape frame ents pass by blast
qed


lemma built_nil: "built h h base tb [] [] sep"
  by (simp add: built_def same_shape_refl built_frame_def entries_ok_def pass_post_def)

lemma built_keeps_base:
  assumes b: "built h h' base tb new names sep" and wf: "wf_slice h base"
  shows "wf_slice h' base \<and> slice_elems h' base = slice_elems h base"
proof -
  have shape: "same_shape h h'" and frame: "built_frame h h' base"
    using b by (auto simp: built_def)
  have "slice_elems h' base = slice_elems h base"
  proof (rule slice_elems_cong)
    show "len base = 0 \<or> len base \<le> length (h ! arr base) \<and> len base \<le> length (h' ! arr base)"
      using wf shape by (auto simp: wf_slice_def same_shape_def)
  next
    fix k assume k: "k < len base"
    then have "arr base < length h" using wf by (auto simp: wf_slice_def)
    then show "h' ! arr base ! k = h ! arr base ! k"
      using frame[unfolded built_frame_def, rule_format, of "arr base" k] k by auto
  qed
  then show ?thesis using wf_slice_same_shape[OF wf shape] by simp
qed

lemma true_names_not_struct: "\<not> Kind_Struct v \<Longrightarrow> true_names v tb sep = []"
  by (cases v) auto

lemma catalog_built:
  "wf_slice h base \<Longrightarrow> slice_elems h base = tb \<Longrightarrow>
     getFieldsConfigsFromValue h v rv base = Ok (out, h') \<Longrightarrow>
     built h h' base tb out (true_names v tb sep) sep"
  and
  "wf_slice h base \<Longrightarrow> slice_elems h base = tb \<Longrightarrow>
     getFields_loop h fs i rv base found = Ok (out, h') \<Longrightarrow>
     \<exists>new. out = found @ new
        \<and> built h h' base tb new (concat (map (\<lambda>f. true_names_field f tb sep) fs)) sep"
proof (induction h v rv base and h fs i rv base found arbitrary: tb out h' and tb out h'
    rule: getFieldsConfigsFromValue_getFields_loop.induct)
  case (1 h v rv base)
  show ?case
  proof (cases v)
    case (VStruct fs)
    from 1(2)[OF VStruct "1.prems"(1,2)] "1.prems"(3) VStruct
    show ?thesis by auto
  next
    case (VTime fs)
    from 1(1)[OF VTime "1.prems"(1,2)] "1.prems"(3) VTime
    show ?thesis by auto
  qed (use "1.prems" in simp_all)
next
  case (2 h i rv base found)
  then show ?case by (simp add: built_nil)
next
  case (3 h name tg v rest i rv base found)
  show ?case
  proof (cases "readParameterConfig tg")
    case (Ok cfg)
    define fieldValue where "fieldValue =
        \<lparr>slot = (if is_nil v then slot rv @ [i, 0] else slot rv @ [i]),
         settable = (settable rv \<and> exported name \<and> \<not> is_nil v)\<rparr>"
    define f where "f = \<lparr>Base = base, Name = name, Value = fieldValue, Config = cfg\<rparr>"
    have fB: "Base f = base" and fN: "Name f = name" by (simp_all add: f_def)
    show ?thesis
    proof (cases "Kind_Struct v")
      case True
      obtain newBase h1 where ap: "go_append h base name = (newBase, h1)"
        by (cases "go_append h base name") auto
      from "3.prems"(3) Ok True ap obtain subFields h2
        where sub: "getFieldsConfigsFromValue h1 v fieldValue newBase = Ok (subFields, h2)"
          and loop: "getFields_loop h2 rest (i + 1) rv base ((found @ [f]) @ subFields) = Ok (out, h')"
        by (auto simp: fieldValue_def f_def Let_def simp del: getFieldsConfigsFromValue.simps split: outcome.splits)
      have wf1: "wf_slice h1 newBase"
        using go_append_wf[OF "3.prems"(1), of name] ap by simp
      have el1: "slice_elems h1 newBase = tb @ [name]"
        using go_append_elems[OF "3.prems"(1), of name] ap "3.prems"(2) by simp
      have bsub: "built h1 h2 newBase (tb @ [name]) subFields (true_names v (tb @ [name]) sep) sep"
        using 3(1)[OF Ok refl refl True ap[symmetric] wf1 el1] sub
        by (simp add: fieldValue_def del: getFieldsConfigsFromValue.simps)
      have "built h h2 base tb (f # subFields @ [])
              (strings_Join (tb @ [name]) sep # true_names v (tb @ [name]) sep @ []) sep"
        by (rule built_struct[OF ap "3.prems"(1,2) bsub built_nil fB fN])
      from built_keeps_base[OF this "3.prems"(1)] "3.prems"(2)
      have wf2: "wf_slice h2 base" and el2: "slice_elems h2 base = tb" by simp_all
      from 3(2)[OF Ok refl refl True ap[symmetric] sub[unfolded fieldValue_def] refl wf2 el2
          loop[unfolded f_def fieldValue_def]]
      obtain new where new: "out = ((found @ [f]) @ subFields) @ new"
        and brest: "built h2 h' base tb new (concat (map (\<lambda>f. true_names_field f tb sep) rest)) sep"
        by (auto simp: fieldValue_def f_def Let_def simp del: getFieldsConfigsFromValue.simps)
      have "built h h' base tb (f # subFields @ new)
              (strings_Join (tb @ [name]) sep # true_names v (tb @ [name]) sep
                 @ concat (map (\<lambda>f. true_names_field f tb sep) rest)) sep"
        by (rule built_struct[OF ap "3.prems"(1,2) bsub brest fB fN])
      then show ?thesis using new by simp
    next
      case False
      from "3.prems"(3) Ok False
      have loop: "getFields_loop h rest (i + 1) rv base (found @ [f]) = Ok (out, h')"
        by (simp add: fieldValue_def f_def Let_def del: getFieldsConfigsFromValue.simps)
      from 3(3)[OF Ok refl refl False "3.prems"(1,2)] loop
      obtain new where new: "out = (found @ [f]) @ new"
        and brest: "built h h' base tb new (concat (map (\<lambda>f. true_names_field f tb sep) rest)) sep"
        by (auto simp: fieldValue_def f_def Let_def simp del: getFieldsConfigsFromValue.simps)
      have "built h h' base tb (f # new)
              (strings_Join (tb @ [Name f]) sep # concat (map (\<lambda>f. true_names_field f tb sep) rest)) sep"
        by (rule built_leaf[OF brest "3.prems"(1,2) fB])
      then show ?thesis using new False by (simp add: true_names_not_struct fN)
    qed
  qed (use "3.prems" in simp_all)
qed


lemma pass_pre_root:
  "pass_pre [] h0 nil_slice [] fs h0"
  by (simp add: pass_pre_def same_shape_refl slice_elems_def nil_slice_def)

lemma pass_pre_step:
  assumes pre: "pass_pre [] h0 nil_slice [] fs g" and post: "pass_post fs g g'"
  shows "pass_pre [] h0 nil_slice [] fs g'"
proof -
  have sg: "same_shape h0 g" and ag: "\<And>a k. a < length h0 \<Longrightarrow> (a, k) \<notin> volatile fs \<Longrightarrow> g ! a ! k = h0 ! a ! k"
    using pre by (auto simp: pass_pre_def)
  have sg': "same_shape g g'" and ag': "\<And>a k. a < length g \<Longrightarrow> (a, k) \<in> volatile fs \<or> g' ! a ! k = g ! a ! k"
    using post by (auto simp: pass_post_def)
  have "g' ! a ! k = h0 ! a ! k" if "a < length h0" "(a, k) \<notin> volatile fs" for a k
    using ag[OF that] ag'[of a k] that sg by (auto simp: same_shape_def)
  then show ?thesis
    using same_shape_trans[OF sg sg'] by (simp add: pass_pre_def slice_elems_def nil_slice_def)
qed

lemma catalog_pass:
  assumes cat: "getFieldsConfigsFromValue [] t root_value nil_slice = Ok (fs, h0)"
    and pre: "pass_pre [] h0 nil_slice [] fs g"
  shows "pass_names g fs sep = true_names t [] sep"
    and "pass_pre [] h0 nil_slice [] fs (pass_heap g fs sep)"
proof -
  have "built [] h0 nil_slice [] fs (true_names t [] sep) sep"
    by (rule catalog_built(1)[OF _ _ cat]) (simp_all add: wf_slice_def slice_elems_def nil_slice_def)
  then have "pass_names g fs sep = true_names t [] sep \<and> pass_post fs g (pass_heap g fs sep)"
    using pre by (simp add: built_def)
  then show "pass_names g fs sep = true_names t [] sep"
    and "pass_pre [] h0 nil_slice [] fs (pass_heap g fs sep)"
    using pass_pre_step[OF pre] by simp_all
qed

lemma files_heap_pass:
  assumes cat: "getFieldsConfigsFromValue [] t root_value nil_slice = Ok (fs, h0)"
  shows "pass_pre [] h0 nil_slice [] fs g \<Longrightarrow> pass_pre [] h0 nil_slice [] fs (files_heap fs sep ms g)"
  by (induction ms arbitrary: g) (simp_all add: catalog_pass(2)[OF cat])

lemma file_assignments_names:
  "pass_names g fs sep = pass_names h fs sep \<Longrightarrow> file_assignments fs sep m g = file_assignments fs sep m h"
  by (simp add: file_assignments_def)

lemma files_assignments_pass:
  assumes cat: "getFieldsConfigsFromValue [] t root_value nil_slice = Ok (fs, h0)"
  shows "pass_pre [] h0 nil_slice [] fs g \<Longrightarrow>
     files_assignments fs sep ms g = concat (map (\<lambda>m. file_assignments fs sep m h0) ms)"
proof (induction ms arbitrary: g)
  case Nil
  show ?case by simp
next
  case (Cons m ms)
  have "pass_names g fs sep = pass_names h0 fs sep"
    using catalog_pass(1)[OF cat Cons.prems] catalog_pass(1)[OF cat pass_pre_root] by simp
  then have "file_assignments fs sep m g = file_assignments fs sep m h0"
    by (rule file_assignments_names)
  then show ?case
    using Cons.IH[OF catalog_pass(2)[OF cat Cons.prems]] by simp
qed

text \<open>Every pass of a merge computes the dotted paths of the settings type.\<close>

lemma readers_compute_true_names:
  assumes cat: "getFieldsConfigsFromValue [] t root_value nil_slice = Ok (fs, h0)"
  shows "pass_names h0 fs sep = true_names t [] sep"
    and "pass_names (heap_after_files lib sys c fs h0) fs sep = true_names t [] sep"
    and "pass_names (heap_after_env lib sys c fs h0) fs sep = true_names t [] sep"
proof -
  have f: "pass_pre [] h0 nil_slice [] fs (heap_after_files lib sys c fs h0)"
    unfolding heap_after_files_def by (rule files_heap_pass[OF cat pass_pre_root])
  then have e: "pass_pre [] h0 nil_slice [] fs (heap_after_env lib sys c fs h0)"
    unfolding heap_after_env_def using catalog_pass(2)[OF cat f] by simp
  show "pass_names h0 fs sep = true_names t [] sep"
    by (rule catalog_pass(1)[OF cat pass_pre_root])
  show "pass_names (heap_after_files lib sys c fs h0) fs sep = true_names t [] sep"
    by (rule catalog_pass(1)[OF cat f])
  show "pass_names (heap_after_env lib sys c fs h0) fs sep = true_names t [] sep"
    by (rule catalog_pass(1)[OF cat e])
qed

text \<open>The paths of the settings object with two sibling structs at depth 3.\<close>

lemma sibling_settings_paths:
  "true_names sibling_settings [] ''.''
     = [''A'', ''A.B'', ''A.B.C'', ''A.B.C.D'', ''A.B.C.D.X'', ''A.B.C.E'', ''A.B.C.E.Y'']"
  by (simp add: sibling_settings_def eval_defs example_defs)

end
